theory Spec2Isabelle
  imports Main "HOL-Library.Sublist" "HOL-Library.Multiset"
begin

section \<open>Python primitives used by the aggregation pipeline\<close>

text \<open>
  Strings are ASCII character lists, as the pincode cells of the spreadsheets are;
  Python integers are \<open>int\<close>. An exception is a value of \<open>py_error\<close>.
\<close>

datatype py_error = ValueError | TypeError | ZeroDivisionError | OverflowError

subsection \<open>\<open>int(s)\<close> on a string\<close>

text \<open>
  \<open>int\<close> strips ASCII whitespace on both sides, reads an optional sign and then
  decimal digits, where single underscores may separate digits; anything else raises
  \<open>ValueError\<close>. The pipeline applies it to the first three characters of a pincode
  text; white space and digits outside ASCII, and the limit on the number of digits of
  recent interpreters, are not modelled.
\<close>

definition is_space :: "char \<Rightarrow> bool" where
  "is_space c = (c = CHR '' '' \<or> (9 \<le> (of_char c :: nat) \<and> (of_char c :: nat) \<le> 13))"

definition is_digit :: "char \<Rightarrow> bool" where
  "is_digit c = (48 \<le> (of_char c :: nat) \<and> (of_char c :: nat) \<le> 57)"

definition digit_val :: "char \<Rightarrow> int" where
  "digit_val c = int (of_char c) - 48"

definition strip :: "string \<Rightarrow> string" where
  "strip s = rev (dropWhile is_space (rev (dropWhile is_space s)))"

fun parse_digits :: "string \<Rightarrow> int \<Rightarrow> int option" where
  "parse_digits [] acc = Some acc"
| "parse_digits (c # cs) acc =
     (if is_digit c then parse_digits cs (10 * acc + digit_val c)
      else if c = CHR ''_'' then
        (case cs of
           [] \<Rightarrow> None
         | d # ds \<Rightarrow> if is_digit d then parse_digits cs acc else None)
      else None)"

definition parse_unsigned :: "string \<Rightarrow> int option" where
  "parse_unsigned u =
     (case u of
        [] \<Rightarrow> None
      | d # ds \<Rightarrow> if is_digit d then parse_digits u 0 else None)"

definition int_of_str :: "string \<Rightarrow> py_error + int" where
  "int_of_str s =
     (let t = strip s;
          (sign, u) = (case t of
                         [] \<Rightarrow> (1, [])
                       | c # cs \<Rightarrow> if c = CHR ''-'' then (-1, cs)
                                  else if c = CHR ''+'' then (1, cs)
                                  else (1, t))
      in case parse_unsigned u of
           None \<Rightarrow> Inl ValueError
         | Some n \<Rightarrow> Inr (sign * n))"

text \<open>The values \<open>int(x)\<close> is applied to: an integer, a string, or \<open>None\<close>.\<close>

datatype py_value = PyInt int | PyStr string | PyNone

fun py_int :: "py_value \<Rightarrow> py_error + int" where
  "py_int (PyInt i) = Inr i"
| "py_int (PyStr s) = int_of_str s"
| "py_int PyNone = Inl TypeError"

section \<open>Classifiers\<close>

subsection \<open>Age classifier\<close>

text \<open>
  \<open>get_age_group\<close> of \<open>dlc_bank_analysis_fixed.py\<close>, \<open>app.py\<close> and
  \<open>excel_data_processor.py\<close> (the three copies are the same). The current year,
  read from the clock in the source, is the first argument. Any exception of the body
  is caught and gives \<open>'Unknown'\<close>.
\<close>

definition get_age_group :: "int \<Rightarrow> py_value \<Rightarrow> string" where
  "get_age_group current_year birth_year =
     (case py_int birth_year of
        Inl _ \<Rightarrow> ''Unknown''
      | Inr y \<Rightarrow>
          (let age = current_year - y in
           if age < 60 then ''Below 60''
           else if 60 \<le> age \<and> age \<le> 65 then ''60-65''
           else if 66 \<le> age \<and> age \<le> 70 then ''66-70''
           else if 71 \<le> age \<and> age \<le> 75 then ''71-75''
           else if 76 \<le> age \<and> age \<le> 80 then ''76-80''
           else ''80+''))"

text \<open>
  The six buckets as the specification words them: a label and the ages it covers.
\<close>

definition age_buckets :: "string list" where
  "age_buckets = [''Below 60'', ''60-65'', ''66-70'', ''71-75'', ''76-80'', ''80+'']"

definition in_bucket :: "string \<Rightarrow> int \<Rightarrow> bool" where
  "in_bucket b a =
     (if b = ''Below 60'' then a < 60
      else if b = ''60-65'' then 60 \<le> a \<and> a \<le> 65
      else if b = ''66-70'' then 66 \<le> a \<and> a \<le> 70
      else if b = ''71-75'' then 71 \<le> a \<and> a \<le> 75
      else if b = ''76-80'' then 76 \<le> a \<and> a \<le> 80
      else if b = ''80+'' then 80 < a
      else False)"

subsection \<open>Pincode classifiers\<close>

text \<open>
  \<open>str.replace('.0', '')\<close> removes every occurrence of \<open>.0\<close>, scanning from the left.
\<close>

fun replace_dot0 :: "string \<Rightarrow> string" where
  "replace_dot0 [] = []"
| "replace_dot0 [c] = [c]"
| "replace_dot0 (c # d # cs) =
     (if c = CHR ''.'' \<and> d = CHR ''0'' then replace_dot0 cs
      else c # replace_dot0 (d # cs))"

text \<open>\<open>get_state_from_pincode\<close> of \<open>dlc_bank_analysis_fixed.py\<close>.\<close>

definition state_of_prefix :: "int \<Rightarrow> string" where
  "state_of_prefix pin_num =
     (if 110 \<le> pin_num \<and> pin_num \<le> 140 then ''Delhi''
      else if 201 \<le> pin_num \<and> pin_num \<le> 285 then ''Uttar Pradesh''
      else if 301 \<le> pin_num \<and> pin_num \<le> 345 then ''Rajasthan''
      else if 360 \<le> pin_num \<and> pin_num \<le> 396 then ''Gujarat''
      else if 400 \<le> pin_num \<and> pin_num \<le> 445 then ''Maharashtra''
      else if 500 \<le> pin_num \<and> pin_num \<le> 509 then ''Telangana''
      else if 510 \<le> pin_num \<and> pin_num \<le> 518 then ''Andhra Pradesh''
      else if 560 \<le> pin_num \<and> pin_num \<le> 591 then ''Karnataka''
      else if 600 \<le> pin_num \<and> pin_num \<le> 643 then ''Tamil Nadu''
      else if 682 \<le> pin_num \<and> pin_num \<le> 695 then ''Kerala''
      else if 700 \<le> pin_num \<and> pin_num \<le> 743 then ''West Bengal''
      else if 751 \<le> pin_num \<and> pin_num \<le> 770 then ''Odisha''
      else if 800 \<le> pin_num \<and> pin_num \<le> 855 then ''Bihar''
      else if 781 \<le> pin_num \<and> pin_num \<le> 788 then ''Assam''
      else if 160 \<le> pin_num \<and> pin_num \<le> 165 then ''Punjab''
      else if 171 \<le> pin_num \<and> pin_num \<le> 177 then ''Himachal Pradesh''
      else if 180 \<le> pin_num \<and> pin_num \<le> 194 then ''Jammu and Kashmir''
      else ''Other State'')"

definition get_state_from_pincode :: "string \<Rightarrow> string" where
  "get_state_from_pincode pincode =
     (let pin_str = replace_dot0 pincode in
      if length pin_str \<ge> 3 then
        (case int_of_str (take 3 pin_str) of
           Inl _ \<Rightarrow> ''Invalid Pincode''
         | Inr pin_num \<Rightarrow> state_of_prefix pin_num)
      else ''Invalid Pincode'')"

text \<open>\<open>get_district_from_pincode\<close> of \<open>dlc_api_endpoint.py\<close>: the first matching
  range in declaration order wins.\<close>

definition district_of_prefix :: "int \<Rightarrow> string" where
  "district_of_prefix pin_num =
     (if 380 \<le> pin_num \<and> pin_num \<le> 382 then ''Ahmedabad''
      else if 390 \<le> pin_num \<and> pin_num \<le> 396 then ''Vadodara''
      else if 360 \<le> pin_num \<and> pin_num \<le> 370 then ''Rajkot''
      else if 370 \<le> pin_num \<and> pin_num \<le> 375 then ''Jamnagar''
      else if 383 \<le> pin_num \<and> pin_num \<le> 389 then ''Gandhinagar''
      else if 362 \<le> pin_num \<and> pin_num \<le> 365 then ''Bhavnagar''
      else if 302 \<le> pin_num \<and> pin_num \<le> 303 then ''Jaipur''
      else if 342 \<le> pin_num \<and> pin_num \<le> 344 then ''Jodhpur''
      else if 313 \<le> pin_num \<and> pin_num \<le> 314 then ''Udaipur''
      else if 334 \<le> pin_num \<and> pin_num \<le> 335 then ''Bikaner''
      else if 301 \<le> pin_num \<and> pin_num \<le> 302 then ''Alwar''
      else if 321 \<le> pin_num \<and> pin_num \<le> 322 then ''Bharatpur''
      else if 400 \<le> pin_num \<and> pin_num \<le> 421 then ''Mumbai''
      else if 411 \<le> pin_num \<and> pin_num \<le> 414 then ''Pune''
      else if 440 \<le> pin_num \<and> pin_num \<le> 445 then ''Nagpur''
      else if 422 \<le> pin_num \<and> pin_num \<le> 425 then ''Nashik''
      else if 431 \<le> pin_num \<and> pin_num \<le> 432 then ''Aurangabad''
      else if 560 \<le> pin_num \<and> pin_num \<le> 562 then ''Bangalore''
      else if 570 \<le> pin_num \<and> pin_num \<le> 571 then ''Mysore''
      else if 580 \<le> pin_num \<and> pin_num \<le> 582 then ''Hubli''
      else if 575 \<le> pin_num \<and> pin_num \<le> 576 then ''Mangalore''
      else if 800 \<le> pin_num \<and> pin_num \<le> 803 then ''Patna''
      else if 834 \<le> pin_num \<and> pin_num \<le> 835 then ''Ranchi''
      else if 831 \<le> pin_num \<and> pin_num \<le> 832 then ''Dhanbad''
      else if 110 \<le> pin_num \<and> pin_num \<le> 140 then ''Delhi''
      else ''Other District'')"

definition get_district_from_pincode :: "string \<Rightarrow> string" where
  "get_district_from_pincode pincode =
     (case int_of_str (take 3 pincode) of
        Inl _ \<Rightarrow> ''Unknown District''
      | Inr pin_num \<Rightarrow> district_of_prefix pin_num)"

text \<open>\<open>get_state_from_pincode\<close> of \<open>excel_data_processor.py\<close>, with its own table.\<close>

definition edp_state_of_prefix :: "int \<Rightarrow> string" where
  "edp_state_of_prefix pin_num =
     (if 110 \<le> pin_num \<and> pin_num \<le> 140 then ''Delhi''
      else if 121 \<le> pin_num \<and> pin_num \<le> 136 then ''Haryana''
      else if 140 \<le> pin_num \<and> pin_num \<le> 160 then ''Punjab''
      else if 301 \<le> pin_num \<and> pin_num \<le> 345 then ''Rajasthan''
      else if 201 \<le> pin_num \<and> pin_num \<le> 285 then ''Uttar Pradesh''
      else if 800 \<le> pin_num \<and> pin_num \<le> 855 then ''Bihar''
      else if 700 \<le> pin_num \<and> pin_num \<le> 743 then ''West Bengal''
      else if 400 \<le> pin_num \<and> pin_num \<le> 445 then ''Maharashtra''
      else if 380 \<le> pin_num \<and> pin_num \<le> 396 then ''Gujarat''
      else if 560 \<le> pin_num \<and> pin_num \<le> 591 then ''Karnataka''
      else if 600 \<le> pin_num \<and> pin_num \<le> 643 then ''Tamil Nadu''
      else if 500 \<le> pin_num \<and> pin_num \<le> 509 then ''Telangana''
      else if 515 \<le> pin_num \<and> pin_num \<le> 535 then ''Andhra Pradesh''
      else if 450 \<le> pin_num \<and> pin_num \<le> 492 then ''Madhya Pradesh''
      else if 751 \<le> pin_num \<and> pin_num \<le> 770 then ''Odisha''
      else if 781 \<le> pin_num \<and> pin_num \<le> 788 then ''Assam''
      else if 682 \<le> pin_num \<and> pin_num \<le> 695 then ''Kerala''
      else if 831 \<le> pin_num \<and> pin_num \<le> 835 then ''Jharkhand''
      else if 248 \<le> pin_num \<and> pin_num \<le> 263 then ''Uttarakhand''
      else if 171 \<le> pin_num \<and> pin_num \<le> 177 then ''Himachal Pradesh''
      else ''Other States'')"

definition edp_get_state_from_pincode :: "string \<Rightarrow> string" where
  "edp_get_state_from_pincode pincode =
     (case int_of_str (take 3 pincode) of
        Inl _ \<Rightarrow> ''Unknown''
      | Inr pin_num \<Rightarrow> edp_state_of_prefix pin_num)"

section \<open>Record normaliser\<close>

text \<open>
  A spreadsheet row, as far as the pipeline reads it. A pincode cell is missing
  (\<open>pd.notna\<close> is false) or holds a value whose \<open>str\<close> is the given text; a numeric
  cell \<open>400001.0\<close> has the text \<open>400001.0\<close>. A year-of-birth cell is missing, holds a
  whole number (both \<open>int(x)\<close> and \<open>int(float(x))\<close> give it), or holds something the
  conversion raises on (a text that is no number, an infinity).
\<close>

datatype cell = NA | Cell string

datatype yob_cell = YobNA | YobNum int | YobBad

record raw_row =
  BRANCH_PINCODE :: cell
  PENSIONER_PINCODE :: cell
  YOB :: yob_cell

text \<open>
  \<open>dlc_bank_analysis_fixed.py\<close>, lines 94-95:
  \<open>str(row.get(c, '')).replace('.0', '') if pd.notna(row.get(c)) else ''\<close>.
\<close>

definition clean_pincode :: "cell \<Rightarrow> string" where
  "clean_pincode c = (case c of NA \<Rightarrow> [] | Cell s \<Rightarrow> replace_dot0 s)"

text \<open>
  \<open>app.py\<close>, lines 489-496: \<open>str(row[c]) if pd.notna(row[c]) else ''\<close>, then
  \<open>if p.endswith('.0'): p = p[:-2]\<close>.
\<close>

definition endswith :: "string \<Rightarrow> string \<Rightarrow> bool" where
  "endswith s suf = (length suf \<le> length s \<and> drop (length s - length suf) s = suf)"

definition app_clean_pincode :: "cell \<Rightarrow> string" where
  "app_clean_pincode c =
     (let p = (case c of NA \<Rightarrow> [] | Cell s \<Rightarrow> s) in
      if endswith p ''.0'' then take (length p - 2) p else p)"

text \<open>
  The specification's normalisation of a pincode text: a trailing \<open>.0\<close> is removed and
  nothing else is touched.
\<close>

definition strip_trailing_dot0 :: "string \<Rightarrow> string" where
  "strip_trailing_dot0 s = (if suffix ''.0'' s then butlast (butlast s) else s)"

text \<open>
  Line 96: \<open>int(float(row.get('YOB', 1960))) if pd.notna(row.get('YOB')) else 1960\<close>.
\<close>

fun birth_year_of :: "yob_cell \<Rightarrow> py_error + int" where
  "birth_year_of YobNA = Inr 1960"
| "birth_year_of (YobNum y) = Inr y"
| "birth_year_of YobBad = Inl ValueError"

section \<open>Aggregation by bank pincode\<close>

text \<open>
  A dictionary is an association list in insertion order, as Python keeps it.
  \<open>dd_add k v\<close> is \<open>d[k] += v\<close> on a \<open>defaultdict(int)\<close>; \<open>dd_update dflt k f\<close>
  fetches \<open>d[k]\<close> from a \<open>defaultdict\<close> with default \<open>dflt\<close> and mutates it by \<open>f\<close>.
\<close>

fun dd_add :: "string \<Rightarrow> int \<Rightarrow> (string \<times> int) list \<Rightarrow> (string \<times> int) list" where
  "dd_add k v [] = [(k, 0 + v)]"
| "dd_add k v ((k', c) # rest) =
     (if k' = k then (k', c + v) # rest else (k', c) # dd_add k v rest)"

fun dd_update :: "'v \<Rightarrow> string \<Rightarrow> ('v \<Rightarrow> 'v) \<Rightarrow> (string \<times> 'v) list \<Rightarrow> (string \<times> 'v) list" where
  "dd_update dflt k f [] = [(k, f dflt)]"
| "dd_update dflt k f ((k', x) # rest) =
     (if k' = k then (k', f x) # rest else (k', x) # dd_update dflt k f rest)"

record bucket =
  total_dlc_completed :: int
  age_groups :: "(string \<times> int) list"
  state :: string
  pensioner_states :: "(string \<times> int) list"

type_synonym bank_pincode_data = "(string \<times> bucket) list"

definition new_bucket :: bucket where
  "new_bucket = \<lparr>total_dlc_completed = 0, age_groups = [], state = [], pensioner_states = []\<rparr>"

text \<open>Lines 109-117: the update of one bucket by one record.\<close>

definition update_bank_data :: "string \<Rightarrow> string \<Rightarrow> string \<Rightarrow> bucket \<Rightarrow> bucket" where
  "update_bank_data age_group bank_state pensioner_state bank_data =
     (let b = bank_data\<lparr>total_dlc_completed := total_dlc_completed bank_data + 1,
                        age_groups := dd_add age_group 1 (age_groups bank_data),
                        pensioner_states := dd_add pensioner_state 1 (pensioner_states bank_data)\<rparr>
      in if state b = [] then b\<lparr>state := bank_state\<rparr> else b)"

text \<open>
  Lines 92-127: one row. The accumulator is \<open>bank_pincode_data\<close> and
  \<open>total_processed\<close>. An exception anywhere in the body skips the row.
\<close>

definition process_row :: "int \<Rightarrow> raw_row \<Rightarrow> bank_pincode_data \<times> int \<Rightarrow> bank_pincode_data \<times> int" where
  "process_row current_year row acc =
     (let branch_pincode = clean_pincode (BRANCH_PINCODE row);
          pensioner_pincode = clean_pincode (PENSIONER_PINCODE row)
      in case birth_year_of (YOB row) of
           Inl _ \<Rightarrow> acc
         | Inr birth_year \<Rightarrow>
             if branch_pincode = [] \<or> length branch_pincode < 6 then acc
             else
               (let age_group = get_age_group current_year (PyInt birth_year);
                    bank_state = get_state_from_pincode branch_pincode;
                    pensioner_state = get_state_from_pincode pensioner_pincode
                in (dd_update new_bucket branch_pincode
                      (update_bank_data age_group bank_state pensioner_state) (fst acc),
                    snd acc + 1)))"

text \<open>A file is unreadable (\<open>pd.read_excel\<close> raises, the file is skipped) or a sheet of rows.\<close>

datatype excel_file = Unreadable | Sheet "raw_row list"

fun process_file :: "int \<Rightarrow> excel_file \<Rightarrow> bank_pincode_data \<times> int \<Rightarrow> bank_pincode_data \<times> int" where
  "process_file current_year Unreadable acc = acc"
| "process_file current_year (Sheet rows) acc = fold (process_row current_year) rows acc"

text \<open>Lines 139-148: only pincodes with completions are emitted.\<close>

definition final_data :: "bank_pincode_data \<Rightarrow> bank_pincode_data" where
  "final_data d = filter (\<lambda>(pincode, data). total_dlc_completed data > 0) d"

definition analyze_dlc_by_bank_pincode :: "int \<Rightarrow> excel_file list \<Rightarrow> bank_pincode_data \<times> int" where
  "analyze_dlc_by_bank_pincode current_year excel_files =
     (let acc = fold (process_file current_year) excel_files ([], 0)
      in (final_data (fst acc), snd acc))"

text \<open>\<open>save_dlc_analysis_data\<close>: the persisted document (the timestamp left out).\<close>

record document =
  total_records_processed :: int
  total_bank_pincodes :: nat
  doc_total_dlc_completed :: int
  bank_pincode_data :: bank_pincode_data

definition save_dlc_analysis_data :: "bank_pincode_data \<Rightarrow> int \<Rightarrow> document" where
  "save_dlc_analysis_data bank_data total_processed =
     \<lparr>total_records_processed = total_processed,
      total_bank_pincodes = length bank_data,
      doc_total_dlc_completed = sum_list (map (\<lambda>(p, data). total_dlc_completed data) bank_data),
      bank_pincode_data = bank_data\<rparr>"

definition persisted_document :: "int \<Rightarrow> excel_file list \<Rightarrow> document" where
  "persisted_document current_year excel_files =
     (let r = analyze_dlc_by_bank_pincode current_year excel_files
      in save_dlc_analysis_data (fst r) (snd r))"

text \<open>The per-bucket invariant of a persisted document.\<close>

definition bucket_ok :: "bucket \<Rightarrow> bool" where
  "bucket_ok b =
     (total_dlc_completed b \<ge> 1
      \<and> total_dlc_completed b = sum_list (map snd (age_groups b))
      \<and> total_dlc_completed b = sum_list (map snd (pensioner_states b)))"

text \<open>\<open>d.get(k, 0)\<close> on a dictionary of counts, and the total of the bucket at a pincode.\<close>

definition count_of :: "(string \<times> int) list \<Rightarrow> string \<Rightarrow> int" where
  "count_of d k = (case map_of d k of None \<Rightarrow> 0 | Some c \<Rightarrow> c)"


section \<open>State-level views\<close>

subsection \<open>\<open>process_excel_data\<close> of \<open>excel_data_processor.py\<close>\<close>

record state_entry =
  total_pensioners :: int
  st_age_groups :: "(string \<times> int) list"
  bank_locations :: "(string \<times> int) list"

definition new_state_entry :: state_entry where
  "new_state_entry = \<lparr>total_pensioners = 0, st_age_groups = [], bank_locations = []\<rparr>"

definition edp_cell_str :: "cell \<Rightarrow> string" where
  "edp_cell_str c = (case c of NA \<Rightarrow> [] | Cell s \<Rightarrow> s)"

text \<open>Line 112: \<open>int(row['YOB']) if pd.notna(row['YOB']) else 1960\<close>.\<close>

fun edp_birth_year_of :: "yob_cell \<Rightarrow> py_error + int" where
  "edp_birth_year_of YobNA = Inr 1960"
| "edp_birth_year_of (YobNum y) = Inr y"
| "edp_birth_year_of YobBad = Inl ValueError"

text \<open>Lines 109-130, the body of the row loop.\<close>

definition edp_process_row ::
  "int \<Rightarrow> raw_row \<Rightarrow> (string \<times> state_entry) list \<times> int \<Rightarrow> (string \<times> state_entry) list \<times> int" where
  "edp_process_row current_year row acc =
     (let pensioner_pincode = edp_cell_str (PENSIONER_PINCODE row);
          branch_pincode = edp_cell_str (BRANCH_PINCODE row)
      in case edp_birth_year_of (YOB row) of
           Inl _ \<Rightarrow> acc
         | Inr birth_year \<Rightarrow>
             (let st = edp_get_state_from_pincode pensioner_pincode;
                  age_group = get_age_group current_year (PyInt birth_year);
                  bank_state = edp_get_state_from_pincode branch_pincode
              in (dd_update new_state_entry st
                    (\<lambda>e. e\<lparr>total_pensioners := total_pensioners e + 1,
                           st_age_groups := dd_add age_group 1 (st_age_groups e),
                           bank_locations := dd_add bank_state 1 (bank_locations e)\<rparr>) (fst acc),
                  snd acc + 1)))"

text \<open>
  Line 107: \<open>pd.read_excel(file_path, chunksize=chunk_size)\<close>. \<open>read_excel\<close> has no
  \<open>chunksize\<close> parameter, so the call raises for every file, readable or not, before a
  single chunk is delivered; the handler of line 132 then skips the file.
\<close>

definition read_excel_chunksize :: "excel_file \<Rightarrow> py_error + raw_row list list" where
  "read_excel_chunksize file = Inl TypeError"

definition process_excel_data ::
  "int \<Rightarrow> excel_file list \<Rightarrow> (string \<times> state_entry) list \<times> int" where
  "process_excel_data current_year excel_files =
     fold (\<lambda>file acc.
             case read_excel_chunksize file of
               Inl _ \<Rightarrow> acc
             | Inr chunks \<Rightarrow> fold (\<lambda>chunk. fold (edp_process_row current_year) chunk) chunks acc)
       excel_files ([], 0)"

subsection \<open>\<open>get_excel_pensioners\<close> of \<open>app.py\<close>\<close>

text \<open>
  \<open>get_state_from_pincode\<close> of \<open>app.py\<close> has the table of
  \<open>excel_data_processor.py\<close>, line for line; \<open>get_district_from_pincode\<close> of
  \<open>app.py\<close> has its own.
\<close>

definition app_get_state_from_pincode :: "string \<Rightarrow> string" where
  "app_get_state_from_pincode pincode =
     (case int_of_str (take 3 pincode) of
        Inl _ \<Rightarrow> ''Unknown''
      | Inr pin_num \<Rightarrow> edp_state_of_prefix pin_num)"

definition app_district_of_prefix :: "int \<Rightarrow> string" where
  "app_district_of_prefix pin_num =
     (if 360 \<le> pin_num \<and> pin_num \<le> 370 then ''Rajkot''
      else if 380 \<le> pin_num \<and> pin_num \<le> 382 then ''Ahmedabad''
      else if 390 \<le> pin_num \<and> pin_num \<le> 396 then ''Vadodara''
      else if 360 \<le> pin_num \<and> pin_num \<le> 365 then ''Rajkot''
      else if 370 \<le> pin_num \<and> pin_num \<le> 375 then ''Jamnagar''
      else if 383 \<le> pin_num \<and> pin_num \<le> 389 then ''Gandhinagar''
      else if 400 \<le> pin_num \<and> pin_num \<le> 421 then ''Mumbai''
      else if 411 \<le> pin_num \<and> pin_num \<le> 414 then ''Pune''
      else if 440 \<le> pin_num \<and> pin_num \<le> 445 then ''Nagpur''
      else if 422 \<le> pin_num \<and> pin_num \<le> 425 then ''Nashik''
      else if 560 \<le> pin_num \<and> pin_num \<le> 562 then ''Bangalore''
      else if 570 \<le> pin_num \<and> pin_num \<le> 571 then ''Mysore''
      else if 580 \<le> pin_num \<and> pin_num \<le> 582 then ''Hubli''
      else if 575 \<le> pin_num \<and> pin_num \<le> 576 then ''Mangalore''
      else if 600 \<le> pin_num \<and> pin_num \<le> 603 then ''Chennai''
      else if 641 \<le> pin_num \<and> pin_num \<le> 642 then ''Coimbatore''
      else if 625 \<le> pin_num \<and> pin_num \<le> 626 then ''Madurai''
      else if 620 \<le> pin_num \<and> pin_num \<le> 621 then ''Tiruchirappalli''
      else if 226 \<le> pin_num \<and> pin_num \<le> 227 then ''Lucknow''
      else if 208 \<le> pin_num \<and> pin_num \<le> 209 then ''Kanpur''
      else if 282 \<le> pin_num \<and> pin_num \<le> 283 then ''Agra''
      else if 221 \<le> pin_num \<and> pin_num \<le> 222 then ''Varanasi''
      else if 700 \<le> pin_num \<and> pin_num \<le> 711 then ''Kolkata''
      else if 711 \<le> pin_num \<and> pin_num \<le> 712 then ''Howrah''
      else if 713 \<le> pin_num \<and> pin_num \<le> 714 then ''Hooghly''
      else if 302 \<le> pin_num \<and> pin_num \<le> 303 then ''Jaipur''
      else if 342 \<le> pin_num \<and> pin_num \<le> 344 then ''Jodhpur''
      else if 324 \<le> pin_num \<and> pin_num \<le> 325 then ''Kota''
      else if 334 \<le> pin_num \<and> pin_num \<le> 335 then ''Bikaner''
      else if 800 \<le> pin_num \<and> pin_num \<le> 801 then ''Patna''
      else if 823 \<le> pin_num \<and> pin_num \<le> 824 then ''Gaya''
      else if 812 \<le> pin_num \<and> pin_num \<le> 813 then ''Bhagalpur''
      else if 842 \<le> pin_num \<and> pin_num \<le> 843 then ''Muzaffarpur''
      else ''Other District'')"

definition app_get_district_from_pincode :: "string \<Rightarrow> string" where
  "app_get_district_from_pincode pincode =
     (case int_of_str (take 3 pincode) of
        Inl _ \<Rightarrow> ''Unknown District''
      | Inr pin_num \<Rightarrow> app_district_of_prefix pin_num)"

text \<open>
  The row of this view has two more cells. The pension amount is missing, a number, or
  something \<open>float\<close> raises on.
\<close>

datatype amount_cell = AmountNA | AmountNum | AmountBad

record pensioner_row = raw_row +
  BANK_NAME :: cell
  PENSION_AMOUNT :: amount_cell

datatype pensioner_file = NoSheet | PensionerSheet "pensioner_row list"

record state_summary_entry =
  ss_total_pensioners :: int
  ss_districts :: "string set"
  ss_pincodes :: "string set"
  ss_banks :: "string set"

definition new_state_summary :: state_summary_entry where
  "new_state_summary =
     \<lparr>ss_total_pensioners = 0, ss_districts = {}, ss_pincodes = {}, ss_banks = {}\<rparr>"

text \<open>
  Lines 486-549, one row. The accumulator is \<open>state_summary\<close> and the number of records
  appended to \<open>pensioners\<close>. The summary is updated before the pensioner record is built,
  so an exception in the conversion of the amount leaves the summary updated.
\<close>

definition pensioners_row ::
  "pensioner_row \<Rightarrow> (string \<times> state_summary_entry) list \<times> nat
   \<Rightarrow> (string \<times> state_summary_entry) list \<times> nat" where
  "pensioners_row row acc =
     (let pensioner_pincode = app_clean_pincode (PENSIONER_PINCODE row);
          branch_pincode = app_clean_pincode (BRANCH_PINCODE row)
      in if pensioner_pincode = [] \<or> pensioner_pincode = ''nan'' then acc
         else
           (let pensioner_state = app_get_state_from_pincode pensioner_pincode;
                branch_state = app_get_state_from_pincode branch_pincode;
                pensioner_district = app_get_district_from_pincode pensioner_pincode;
                branch_district = app_get_district_from_pincode branch_pincode
            in if pensioner_state = ''Unknown'' \<or> pensioner_state = ''Other States'' then acc
               else
                 (let summary = dd_update new_state_summary pensioner_state
                        (\<lambda>e. e\<lparr>ss_total_pensioners := ss_total_pensioners e + 1,
                               ss_districts := insert pensioner_district (ss_districts e),
                               ss_pincodes := insert pensioner_pincode (ss_pincodes e),
                               ss_banks := (case BANK_NAME row of
                                              NA \<Rightarrow> ss_banks e
                                            | Cell b \<Rightarrow> insert b (ss_banks e))\<rparr>)
                        (fst acc)
                  in case PENSION_AMOUNT row of
                       AmountBad \<Rightarrow> (summary, snd acc)
                     | _ \<Rightarrow> (summary, snd acc + 1))))"

text \<open>Lines 476-556: \<open>pd.read_excel(file_path, nrows=2000)\<close> and the loop over the files.\<close>

definition get_excel_pensioners ::
  "pensioner_file list \<Rightarrow> (string \<times> state_summary_entry) list \<times> nat" where
  "get_excel_pensioners excel_files =
     fold (\<lambda>file acc.
             case file of
               NoSheet \<Rightarrow> acc
             | PensionerSheet rows \<Rightarrow> fold pensioners_row (take 2000 rows) acc)
       excel_files ([], 0)"


subsection \<open>The normalisation of the specification\<close>




section \<open>Sorting and top-N projections\<close>

text \<open>
  \<open>sorted(xs, key=f, reverse=True)\<close>: Python's sort is stable, and with
  \<open>reverse=True\<close> elements of equal key still keep their original order. It is the
  stable insertion sort by the negated key.
\<close>

definition sorted_reverse :: "('a \<Rightarrow> int) \<Rightarrow> 'a list \<Rightarrow> 'a list" where
  "sorted_reverse f xs = sort_key (\<lambda>x. - f x) xs"

text \<open>\<open>sorted(xs, key=f, reverse=True)[:n]\<close>.\<close>

definition top_n :: "nat \<Rightarrow> ('a \<Rightarrow> int) \<Rightarrow> 'a list \<Rightarrow> 'a list" where
  "top_n n f xs = take n (sorted_reverse f xs)"

text \<open>\<open>generate_dlc_analysis_report\<close>, lines 176 and 188-195.\<close>

definition top_pincodes :: "bank_pincode_data \<Rightarrow> (string \<times> bucket) list" where
  "top_pincodes bank_data =
     top_n 15 (\<lambda>x. total_dlc_completed (snd x)) bank_data"

definition state_totals :: "bank_pincode_data \<Rightarrow> (string \<times> int) list" where
  "state_totals bank_data =
     fold (\<lambda>(pincode, data) acc. dd_add (state data) (total_dlc_completed data) acc) bank_data []"

definition state_pincodes :: "bank_pincode_data \<Rightarrow> (string \<times> int) list" where
  "state_pincodes bank_data =
     fold (\<lambda>(pincode, data) acc. dd_add (state data) 1 acc) bank_data []"

definition state_sorted :: "bank_pincode_data \<Rightarrow> (string \<times> int) list" where
  "state_sorted bank_data = top_n 10 snd (state_totals bank_data)"

text \<open>
  The order the specification asks of a projection: \<open>ys\<close> is \<open>xs\<close> rearranged in
  descending order of count, buckets of equal count in their order of first encounter.
\<close>

definition descending_stable :: "('a \<Rightarrow> int) \<Rightarrow> 'a list \<Rightarrow> 'a list \<Rightarrow> bool" where
  "descending_stable f xs ys =
     (mset ys = mset xs
      \<and> sorted_wrt (\<lambda>x y. f x \<ge> f y) ys
      \<and> (\<forall>c. filter (\<lambda>x. f x = c) ys = filter (\<lambda>x. f x = c) xs))"

section \<open>Bank-location rollup of \<open>dlc_api_endpoint.py\<close>\<close>

text \<open>\<open>d[k] = v\<close> on a dictionary.\<close>

fun dict_set :: "string \<Rightarrow> 'v \<Rightarrow> (string \<times> 'v) list \<Rightarrow> (string \<times> 'v) list" where
  "dict_set k v [] = [(k, v)]"
| "dict_set k v ((k', x) # rest) =
     (if k' = k then (k', v) # rest else (k', x) # dict_set k v rest)"

record pincode_item =
  pincode :: string
  dlc_count :: int
  district :: string

record bank_state_acc =
  acc_total_dlc_completed :: int
  acc_age_groups :: "(string \<times> int) list"
  acc_bank_pincodes :: "pincode_item list"
  acc_pincode_counts :: "(string \<times> int) list"

definition new_bank_state_acc :: bank_state_acc where
  "new_bank_state_acc =
     \<lparr>acc_total_dlc_completed = 0, acc_age_groups = [], acc_bank_pincodes = [],
      acc_pincode_counts = []\<rparr>"

text \<open>Lines 58-68: the state aggregation of one bank pincode.\<close>

definition add_bank_pincode :: "string \<Rightarrow> bucket \<Rightarrow> bank_state_acc \<Rightarrow> bank_state_acc" where
  "add_bank_pincode pin data e =
     e\<lparr>acc_total_dlc_completed := acc_total_dlc_completed e + total_dlc_completed data,
       acc_pincode_counts := dict_set pin (total_dlc_completed data) (acc_pincode_counts e),
       acc_bank_pincodes := acc_bank_pincodes e @
          [\<lparr>pincode = pin, dlc_count = total_dlc_completed data,
            district = get_district_from_pincode pin\<rparr>],
       acc_age_groups := fold (\<lambda>(age_group, count). dd_add age_group count)
                           (age_groups data) (acc_age_groups e)\<rparr>"

definition state_wise_data :: "bank_pincode_data \<Rightarrow> (string \<times> bank_state_acc) list" where
  "state_wise_data bank_data =
     fold (\<lambda>(pin, data). dd_update new_bank_state_acc (state data) (add_bank_pincode pin data))
       bank_data []"

record bank_state_final =
  bl_total_pensioners :: int
  bl_age_groups :: "(string \<times> int) list"
  bl_bank_locations :: "(string \<times> int) list"
  bl_pincode_counts :: "(string \<times> int) list"
  bl_bank_pincodes :: "pincode_item list"

text \<open>Lines 83-91.\<close>

definition state_final :: "bank_pincode_data \<Rightarrow> (string \<times> bank_state_final) list" where
  "state_final bank_data =
     map (\<lambda>(st, data).
            (st, \<lparr>bl_total_pensioners = acc_total_dlc_completed data,
                  bl_age_groups = acc_age_groups data,
                  bl_bank_locations = [],
                  bl_pincode_counts = acc_pincode_counts data,
                  bl_bank_pincodes = top_n 20 dlc_count (acc_bank_pincodes data)\<rparr>))
       (state_wise_data bank_data)"

definition bank_location_total :: "(string \<times> bank_state_final) list \<Rightarrow> string \<Rightarrow> int" where
  "bank_location_total d k = (case map_of d k of None \<Rightarrow> 0 | Some e \<Rightarrow> bl_total_pensioners e)"

text \<open>The sum of \<open>total_dlc_completed\<close> over the bank pincodes whose stored state is \<open>S\<close>.\<close>

definition completions_in_state :: "bank_pincode_data \<Rightarrow> string \<Rightarrow> int" where
  "completions_in_state bank_data S =
     sum_list (map (\<lambda>(pin, data). total_dlc_completed data)
                 (filter (\<lambda>(pin, data). state data = S) bank_data))"

text \<open>
  The bank pincodes of a state in the order of the document, and the list the rollup
  shows for a state.
\<close>

definition pincode_items :: "bank_pincode_data \<Rightarrow> string \<Rightarrow> pincode_item list" where
  "pincode_items bank_data S =
     map (\<lambda>(pin, data). \<lparr>pincode = pin, dlc_count = total_dlc_completed data,
                           district = get_district_from_pincode pin\<rparr>)
       (filter (\<lambda>(pin, data). state data = S) bank_data)"

definition listed_pincodes :: "(string \<times> bank_state_final) list \<Rightarrow> string \<Rightarrow> pincode_item list" where
  "listed_pincodes d k = (case map_of d k of None \<Rightarrow> [] | Some e \<Rightarrow> bl_bank_pincodes e)"

definition acc_items :: "(string \<times> bank_state_acc) list \<Rightarrow> string \<Rightarrow> pincode_item list" where
  "acc_items d k = (case map_of d k of None \<Rightarrow> [] | Some e \<Rightarrow> acc_bank_pincodes e)"

definition acc_total :: "(string \<times> bank_state_acc) list \<Rightarrow> string \<Rightarrow> int" where
  "acc_total d k = (case map_of d k of None \<Rightarrow> 0 | Some e \<Rightarrow> acc_total_dlc_completed e)"

subsection \<open>The district aggregation of the same loop\<close>

record district_item =
  di_pincode :: string
  di_dlc_count :: int

record district_acc =
  da_total_dlc_completed :: int
  da_age_groups :: "(string \<times> int) list"
  da_bank_pincodes :: "district_item list"
  da_state :: string

definition new_district_acc :: district_acc where
  "new_district_acc =
     \<lparr>da_total_dlc_completed = 0, da_age_groups = [], da_bank_pincodes = [], da_state = []\<rparr>"

text \<open>Line 71: \<open>f"{district}_{state}"\<close>.\<close>

definition district_key :: "string \<Rightarrow> bucket \<Rightarrow> string" where
  "district_key pin data = get_district_from_pincode pin @ ''_'' @ state data"

text \<open>Lines 72-80: the district aggregation of one bank pincode.\<close>

definition add_district_pincode :: "string \<Rightarrow> bucket \<Rightarrow> district_acc \<Rightarrow> district_acc" where
  "add_district_pincode pin data e =
     e\<lparr>da_total_dlc_completed := da_total_dlc_completed e + total_dlc_completed data,
       da_state := state data,
       da_bank_pincodes := da_bank_pincodes e @
          [\<lparr>di_pincode = pin, di_dlc_count = total_dlc_completed data\<rparr>],
       da_age_groups := fold (\<lambda>(age_group, count). dd_add age_group count)
                          (age_groups data) (da_age_groups e)\<rparr>"

definition district_wise_data :: "bank_pincode_data \<Rightarrow> (string \<times> district_acc) list" where
  "district_wise_data bank_data =
     fold (\<lambda>(pin, data). dd_update new_district_acc (district_key pin data)
                             (add_district_pincode pin data))
       bank_data []"

record district_final_entry =
  df_total_dlc_completed :: int
  df_age_groups :: "(string \<times> int) list"
  df_state :: string
  df_bank_pincodes :: "district_item list"

text \<open>Lines 93-100.\<close>

definition district_final :: "bank_pincode_data \<Rightarrow> (string \<times> district_final_entry) list" where
  "district_final bank_data =
     map (\<lambda>(district_key, data).
            (district_key,
             \<lparr>df_total_dlc_completed = da_total_dlc_completed data,
              df_age_groups = da_age_groups data,
              df_state = da_state data,
              df_bank_pincodes = top_n 10 di_dlc_count (da_bank_pincodes data)\<rparr>))
       (district_wise_data bank_data)"

text \<open>
  The bank pincodes of a district key in the order of the document, and the list the
  rollup shows for a district key.
\<close>

definition district_items :: "bank_pincode_data \<Rightarrow> string \<Rightarrow> district_item list" where
  "district_items bank_data K =
     map (\<lambda>(pin, data). \<lparr>di_pincode = pin, di_dlc_count = total_dlc_completed data\<rparr>)
       (filter (\<lambda>(pin, data). district_key pin data = K) bank_data)"

definition listed_district_pincodes ::
  "(string \<times> district_final_entry) list \<Rightarrow> string \<Rightarrow> district_item list" where
  "listed_district_pincodes d k = (case map_of d k of None \<Rightarrow> [] | Some e \<Rightarrow> df_bank_pincodes e)"

definition da_items :: "(string \<times> district_acc) list \<Rightarrow> string \<Rightarrow> district_item list" where
  "da_items d k = (case map_of d k of None \<Rightarrow> [] | Some e \<Rightarrow> da_bank_pincodes e)"

text \<open>\<open>save_dlc_analysis_data\<close>, line 230: the top 50 written to the second file.\<close>

definition top_50_bank_pincodes :: "bank_pincode_data \<Rightarrow> (string \<times> bucket) list" where
  "top_50_bank_pincodes bank_data = top_n 50 (\<lambda>x. total_dlc_completed (snd x)) bank_data"

section \<open>True division and truncation\<close>

text \<open>
  \<open>a / b\<close> on integers is the binary64 number nearest to the exact quotient, ties to
  the even mantissa; it raises \<open>ZeroDivisionError\<close> for \<open>b = 0\<close> and
  \<open>OverflowError\<close> when the rounded quotient is beyond the largest double. A finite
  double is kept as mantissa and exponent: \<open>Dyadic m e\<close> is \<open>m * 2 ^ e\<close>.
\<close>

datatype py_float = Dyadic int int

text \<open>\<open>n.bit_length()\<close>: the number of bits of \<open>\<bar>n\<bar>\<close>.\<close>

function bit_length :: "int \<Rightarrow> nat" where
  "bit_length n = (if n = 0 then 0 else Suc (bit_length (\<bar>n\<bar> div 2)))"
  by pat_completeness auto
termination
  by (relation "measure (\<lambda>n. nat \<bar>n\<bar>)") auto

declare bit_length.simps [simp del]

text \<open>\<open>quotient_exponent a b\<close> is \<open>\<lfloor>log\<^sub>2 (a / b)\<rfloor>\<close> for positive \<open>a\<close> and \<open>b\<close>.\<close>

definition quotient_exponent :: "int \<Rightarrow> int \<Rightarrow> int" where
  "quotient_exponent a b =
     (let d = int (bit_length a) - int (bit_length b) in
      if (if d \<ge> 0 then b * 2 ^ nat d \<le> a else b \<le> a * 2 ^ nat (- d)) then d else d - 1)"

text \<open>The integer nearest to \<open>num / den\<close>, a tie going to the even one.\<close>

definition round_half_even :: "int \<Rightarrow> int \<Rightarrow> int" where
  "round_half_even num den =
     (let q = num div den; r = num mod den in
      if 2 * r > den \<or> (2 * r = den \<and> odd q) then q + 1 else q)"

text \<open>
  The nearest double of \<open>a / b\<close> for positive \<open>a\<close> and \<open>b\<close>: 53 bits of mantissa, the
  exponent of the last bit not below \<open>-1074\<close> (subnormal numbers).
\<close>

definition nearest_double :: "int \<Rightarrow> int \<Rightarrow> int \<times> int" where
  "nearest_double a b =
     (let e = max (quotient_exponent a b - 52) (- 1074) in
      (if e \<ge> 0 then round_half_even a (b * 2 ^ nat e)
       else round_half_even (a * 2 ^ nat (- e)) b, e))"

definition py_true_div :: "int \<Rightarrow> int \<Rightarrow> py_error + py_float" where
  "py_true_div a b =
     (if b = 0 then Inl ZeroDivisionError
      else if a = 0 then Inr (Dyadic 0 0)
      else
        (case nearest_double \<bar>a\<bar> \<bar>b\<bar> of
           (m, e) \<Rightarrow>
             if e > 971 \<or> (e = 971 \<and> m \<ge> 2 ^ 53) then Inl OverflowError
             else Inr (Dyadic (sgn a * sgn b * m) e)))"

text \<open>\<open>int(x)\<close> on a finite float truncates toward zero.\<close>

fun int_of_float :: "py_float \<Rightarrow> int" where
  "int_of_float (Dyadic m e) =
     (if e \<ge> 0 then m * 2 ^ nat e else sgn m * (\<bar>m\<bar> div 2 ^ nat (- e)))"

section \<open>Residence rollup of \<open>app.py\<close>\<close>

text \<open>Line 851: \<open>int((age_count * pensioner_count) / total_bank_dlc)\<close>.\<close>

definition proportional_count :: "int \<Rightarrow> int \<Rightarrow> int \<Rightarrow> py_error + int" where
  "proportional_count age_count pensioner_count total_bank_dlc =
     (case py_true_div (age_count * pensioner_count) total_bank_dlc of
        Inl err \<Rightarrow> Inl err
      | Inr x \<Rightarrow> Inr (int_of_float x))"

record residence_entry =
  rs_total_pensioners :: int
  rs_age_groups :: "(string \<times> int) list"
  rs_bank_locations :: "(string \<times> int) list"
  rs_pincode_counts :: "(string \<times> int) list"

definition new_residence_entry :: residence_entry where
  "new_residence_entry =
     \<lparr>rs_total_pensioners = 0, rs_age_groups = [], rs_bank_locations = [],
      rs_pincode_counts = []\<rparr>"

text \<open>Line 840: the guard on the pensioner state.\<close>

definition residence_state_ok :: "string \<Rightarrow> bool" where
  "residence_state_ok pensioner_state =
     (pensioner_state \<noteq> [] \<and> pensioner_state \<noteq> ''Invalid Pincode''
      \<and> pensioner_state \<noteq> ''Other State'')"

text \<open>Lines 850-852: the loop over the age groups of the bucket.\<close>

fun distribute_age_groups ::
  "int \<Rightarrow> int \<Rightarrow> (string \<times> int) list \<Rightarrow> (string \<times> int) list \<Rightarrow> py_error + (string \<times> int) list" where
  "distribute_age_groups pensioner_count total_bank_dlc [] acc = Inr acc"
| "distribute_age_groups pensioner_count total_bank_dlc ((age_group, age_count) # rest) acc =
     (case proportional_count age_count pensioner_count total_bank_dlc of
        Inl err \<Rightarrow> Inl err
      | Inr c \<Rightarrow> distribute_age_groups pensioner_count total_bank_dlc rest (dd_add age_group c acc))"

text \<open>Lines 841-852: what one pensioner state of a bucket adds to its entry.\<close>

definition add_residents :: "bucket \<Rightarrow> int \<Rightarrow> residence_entry \<Rightarrow> py_error + residence_entry" where
  "add_residents data pensioner_count e =
     (let e1 = e\<lparr>rs_total_pensioners := rs_total_pensioners e + pensioner_count,
                 rs_bank_locations := dd_add (state data) pensioner_count (rs_bank_locations e)\<rparr>;
          total_bank_dlc = total_dlc_completed data
      in if total_bank_dlc > 0 then
           (case distribute_age_groups pensioner_count total_bank_dlc (age_groups data)
                   (rs_age_groups e1) of
              Inl err \<Rightarrow> Inl err
            | Inr ag \<Rightarrow> Inr (e1\<lparr>rs_age_groups := ag\<rparr>))
         else Inr e1)"

definition entry_of :: "(string \<times> residence_entry) list \<Rightarrow> string \<Rightarrow> residence_entry" where
  "entry_of sw k = (case map_of sw k of None \<Rightarrow> new_residence_entry | Some e \<Rightarrow> e)"

text \<open>Lines 839-852: the loop over the pensioner states of one bucket.\<close>

fun distribute_pensioners ::
  "bucket \<Rightarrow> (string \<times> int) list \<Rightarrow> (string \<times> residence_entry) list
   \<Rightarrow> py_error + (string \<times> residence_entry) list" where
  "distribute_pensioners data [] sw = Inr sw"
| "distribute_pensioners data ((pensioner_state, pensioner_count) # rest) sw =
     (if residence_state_ok pensioner_state then
        (case add_residents data pensioner_count (entry_of sw pensioner_state) of
           Inl err \<Rightarrow> Inl err
         | Inr e \<Rightarrow> distribute_pensioners data rest (dict_set pensioner_state e sw))
      else distribute_pensioners data rest sw)"

text \<open>Lines 835-852: the loop over the bank pincodes; an exception ends the request.\<close>

fun rollup_loop ::
  "bank_pincode_data \<Rightarrow> (string \<times> residence_entry) list
   \<Rightarrow> py_error + (string \<times> residence_entry) list" where
  "rollup_loop [] sw = Inr sw"
| "rollup_loop ((bank_pincode, data) # rest) sw =
     (case distribute_pensioners data (pensioner_states data) sw of
        Inl err \<Rightarrow> Inl err
      | Inr sw' \<Rightarrow> rollup_loop rest sw')"

definition residence_rollup :: "bank_pincode_data \<Rightarrow> py_error + (string \<times> residence_entry) list" where
  "residence_rollup bank_data = rollup_loop bank_data []"

text \<open>
  The count of an age group in a residence state's histogram, and the sum of all
  redistributed age-group counts of the rollup.
\<close>

definition age_count_of :: "(string \<times> residence_entry) list \<Rightarrow> string \<Rightarrow> string \<Rightarrow> int" where
  "age_count_of sw st g = count_of (rs_age_groups (entry_of sw st)) g"

definition redistributed_sum :: "(string \<times> residence_entry) list \<Rightarrow> int" where
  "redistributed_sum sw = sum_list (map (\<lambda>(st, e). sum_list (map snd (rs_age_groups e))) sw)"

text \<open>A bucket with the sentinel and empty pensioner states removed.\<close>

definition drop_sentinels :: "bucket \<Rightarrow> bucket" where
  "drop_sentinels data =
     data\<lparr>pensioner_states := filter (\<lambda>(st, c). residence_state_ok st) (pensioner_states data)\<rparr>"

text \<open>
  The exact shares the claims speak of: \<open>age_share data P g\<close> is
  \<open>\<lfloor>A * P / T\<rfloor>\<close> for the count \<open>A\<close> of age group \<open>g\<close> in the bucket (the sum of
  these, should a key occur twice), \<open>state_share\<close> sums it over the entries of a pensioner
  state that pass the guard, and \<open>bucket_share data P\<close> sums it over all age groups.
\<close>

definition age_share :: "bucket \<Rightarrow> int \<Rightarrow> string \<Rightarrow> int" where
  "age_share data P g =
     sum_list (map (\<lambda>(g', A). (A * P) div total_dlc_completed data)
                 (filter (\<lambda>(g', A). g' = g) (age_groups data)))"

definition state_share :: "bucket \<Rightarrow> (string \<times> int) list \<Rightarrow> string \<Rightarrow> string \<Rightarrow> int" where
  "state_share data l st g =
     sum_list (map (\<lambda>(s, P). age_share data P g)
                 (filter (\<lambda>(s, P). s = st \<and> residence_state_ok s) l))"

definition bucket_share :: "bucket \<Rightarrow> int \<Rightarrow> int" where
  "bucket_share data P =
     sum_list (map (\<lambda>(g, A). (A * P) div total_dlc_completed data) (age_groups data))"

definition counted_states :: "bucket \<Rightarrow> (string \<times> int) list" where
  "counted_states data = filter (\<lambda>(st, c). residence_state_ok st) (pensioner_states data)"

definition excluded_count :: "bucket \<Rightarrow> int" where
  "excluded_count data =
     sum_list (map snd (filter (\<lambda>(st, c). \<not> residence_state_ok st) (pensioner_states data)))"

text \<open>Counts are not negative.\<close>

definition counts_nonneg :: "bucket \<Rightarrow> bool" where
  "counts_nonneg data =
     (list_all (\<lambda>(g, A). 0 \<le> A) (age_groups data)
      \<and> list_all (\<lambda>(st, P). 0 \<le> P) (pensioner_states data))"

text \<open>Every product \<open>age_count * pensioner_count\<close> of the bucket is below \<open>2\<^sup>5\<^sup>3\<close>.\<close>

definition products_exact :: "bucket \<Rightarrow> bool" where
  "products_exact data =
     list_all (\<lambda>(st, P). list_all (\<lambda>(g, A). 0 \<le> A * P \<and> A * P < 2 ^ 53) (age_groups data))
       (pensioner_states data)"

text \<open>
  A bucket the analysis produces from six rows at one branch, one per age group, three
  pensioners living in Gujarat and three in Rajasthan; and the rollup of it.
\<close>

definition six_ages_bucket :: bucket where
  "six_ages_bucket =
     \<lparr>total_dlc_completed = 6,
      age_groups = [(''Below 60'', 1), (''60-65'', 1), (''66-70'', 1), (''71-75'', 1),
                    (''76-80'', 1), (''80+'', 1)],
      state = ''Maharashtra'',
      pensioner_states = [(''Gujarat'', 3), (''Rajasthan'', 3)]\<rparr>"

definition six_ages_rollup :: "(string \<times> residence_entry) list" where
  "six_ages_rollup =
     [(''Gujarat'',
        \<lparr>rs_total_pensioners = 3,
         rs_age_groups = [(''Below 60'', 0), (''60-65'', 0), (''66-70'', 0), (''71-75'', 0),
                          (''76-80'', 0), (''80+'', 0)],
         rs_bank_locations = [(''Maharashtra'', 3)], rs_pincode_counts = []\<rparr>),
      (''Rajasthan'',
        \<lparr>rs_total_pensioners = 3,
         rs_age_groups = [(''Below 60'', 0), (''60-65'', 0), (''66-70'', 0), (''71-75'', 0),
                          (''76-80'', 0), (''80+'', 0)],
         rs_bank_locations = [(''Maharashtra'', 3)], rs_pincode_counts = []\<rparr>)]"

section \<open>Properties of the classifiers\<close>

lemma get_age_group_int:
  "get_age_group r (PyInt y) =
     (if r - y < 60 then ''Below 60''
      else if r - y \<le> 65 then ''60-65''
      else if r - y \<le> 70 then ''66-70''
      else if r - y \<le> 75 then ''71-75''
      else if r - y \<le> 80 then ''76-80''
      else ''80+'')"
  by (simp add: get_age_group_def Let_def)

lemma in_bucket_iff:
  "in_bucket b a \<longleftrightarrow>
     (b = ''Below 60'' \<and> a < 60) \<or> (b = ''60-65'' \<and> 60 \<le> a \<and> a \<le> 65) \<or>
     (b = ''66-70'' \<and> 66 \<le> a \<and> a \<le> 70) \<or> (b = ''71-75'' \<and> 71 \<le> a \<and> a \<le> 75) \<or>
     (b = ''76-80'' \<and> 76 \<le> a \<and> a \<le> 80) \<or> (b = ''80+'' \<and> 80 < a)"
  by (simp add: in_bucket_def)

text \<open>
  Claim C2. For every integer birth year \<open>y\<close> and reference year \<open>r\<close> the age
  classifier returns one of the six buckets, the one whose age range holds \<open>r - y\<close>; it
  never answers \<open>'Unknown'\<close> on an integer, and every integer age lies in exactly one
  of the six ranges (no gap, no overlap).
\<close>

theorem age_group_partition:
  "(get_age_group r (PyInt y) = b) = (b \<in> set age_buckets \<and> in_bucket b (r - y))
   \<and> get_age_group r (PyInt y) \<in> set age_buckets
   \<and> get_age_group r (PyInt y) \<noteq> ''Unknown''
   \<and> (\<exists>!l. l \<in> set age_buckets \<and> in_bucket l a)
   \<and> distinct age_buckets \<and> length age_buckets = 6"
proof -
  have 1: "(get_age_group r (PyInt y) = b) = (b \<in> set age_buckets \<and> in_bucket b (r - y))"
    for r y b
    unfolding get_age_group_int in_bucket_iff age_buckets_def by auto
  have 2: "get_age_group r (PyInt y) \<in> set age_buckets"
    using 1 [of r y "get_age_group r (PyInt y)"] by simp
  have 3: "get_age_group r (PyInt y) \<noteq> ''Unknown''"
    unfolding get_age_group_int by simp
  have "l \<in> set age_buckets \<and> in_bucket l a \<longleftrightarrow> l = get_age_group a (PyInt 0)" for l
    using 1 [of a 0 l] by auto
  then have 4: "\<exists>!l. l \<in> set age_buckets \<and> in_bucket l a"
    by simp
  have 5: "distinct age_buckets \<and> length age_buckets = 6"
    by (simp add: age_buckets_def)
  from 1 2 3 4 5 show ?thesis by blast
qed

text \<open>
  Claim C7. The worked examples of the specification: pincode \<open>400001\<close> is in
  Maharashtra, district Mumbai; a birth year of 1955 seen from 2024 is age 69, bucket
  \<open>66-70\<close>.
\<close>

theorem worked_examples:
  "get_state_from_pincode ''400001'' = ''Maharashtra''
   \<and> get_district_from_pincode ''400001'' = ''Mumbai''
   \<and> (2024::int) - 1955 = 69
   \<and> get_age_group 2024 (PyInt 1955) = ''66-70''"
  by (simp add: get_state_from_pincode_def get_district_from_pincode_def int_of_str_def
      strip_def is_space_def is_digit_def digit_val_def parse_unsigned_def
      state_of_prefix_def district_of_prefix_def get_age_group_int)

section \<open>Properties of the aggregation by bank pincode\<close>

lemma sum_dd_add: "sum_list (map snd (dd_add k v d)) = sum_list (map snd d) + v"
  by (induction d) auto

definition bucket_pre :: "bucket \<Rightarrow> bool" where
  "bucket_pre b = (total_dlc_completed b \<ge> 0
      \<and> total_dlc_completed b = sum_list (map snd (age_groups b))
      \<and> total_dlc_completed b = sum_list (map snd (pensioner_states b)))"

lemma bucket_pre_new: "bucket_pre new_bucket"
  by (simp add: bucket_pre_def new_bucket_def)

lemma bucket_ok_pre: "bucket_ok b \<Longrightarrow> bucket_pre b"
  by (simp add: bucket_pre_def bucket_ok_def)

lemma update_bank_data_ok: "bucket_pre b \<Longrightarrow> bucket_ok (update_bank_data g bs ps b)"
  by (simp add: bucket_pre_def bucket_ok_def update_bank_data_def Let_def sum_dd_add)

lemma dd_update_all:
  assumes "P (f dflt)" and "\<And>x. P x \<Longrightarrow> P (f x)"
  shows "(\<forall>(k, x) \<in> set d. P x) \<Longrightarrow> (\<forall>(k, x) \<in> set (dd_update dflt key f d). P x)"
  using assms by (induction d) (auto split: if_splits)

lemma process_row_ok:
  assumes "\<forall>(k, b) \<in> set (fst acc). bucket_ok b"
  shows "\<forall>(k, b) \<in> set (fst (process_row cy row acc)). bucket_ok b"
proof -
  have "\<forall>(k, b) \<in> set (dd_update new_bucket key (update_bank_data g bs ps) (fst acc)). bucket_ok b"
    for key g bs ps
    by (rule dd_update_all [OF _ _ assms]) (simp_all add: update_bank_data_ok bucket_pre_new bucket_ok_pre)
  then show ?thesis
    using assms by (simp add: process_row_def Let_def split: sum.splits)
qed

lemma fold_rows_ok:
  "\<forall>(k, b) \<in> set (fst acc). bucket_ok b \<Longrightarrow>
   \<forall>(k, b) \<in> set (fst (fold (process_row cy) rows acc)). bucket_ok b"
proof (induction rows arbitrary: acc)
  case Nil then show ?case by simp
next
  case (Cons r rows)
  show ?case using Cons.IH [OF process_row_ok [OF Cons.prems]] by simp
qed

lemma process_file_ok:
  "\<forall>(k, b) \<in> set (fst acc). bucket_ok b \<Longrightarrow>
   \<forall>(k, b) \<in> set (fst (process_file cy f acc)). bucket_ok b"
  by (cases f) (simp_all add: fold_rows_ok)

lemma fold_files_ok:
  "\<forall>(k, b) \<in> set (fst acc). bucket_ok b \<Longrightarrow>
   \<forall>(k, b) \<in> set (fst (fold (process_file cy) files acc)). bucket_ok b"
proof (induction files arbitrary: acc)
  case Nil then show ?case by simp
next
  case (Cons f files)
  show ?case using Cons.IH [OF process_file_ok [OF Cons.prems]] by simp
qed

lemma dd_update_keys:
  "map fst (dd_update dflt k f d) = (if k \<in> fst ` set d then map fst d else map fst d @ [k])"
proof (induction d)
  case Nil
  show ?case by simp
next
  case (Cons p d)
  obtain k' x where p: "p = (k', x)" by (cases p)
  show ?case using Cons.IH by (cases "k' = k") (simp_all add: p)
qed

lemma dd_update_distinct: "distinct (map fst d) \<Longrightarrow> distinct (map fst (dd_update dflt k f d))"
  by (simp add: dd_update_keys)

text \<open>
  Claim C10. In every persisted bank-pincode summary document, every pincode bucket has
  at least one completion, and its total equals the sum of its age-group counts and the
  sum of its pensioner-state counts.
\<close>

theorem persisted_buckets_ok:
  "\<forall>(pincode, b) \<in> set (bank_pincode_data (persisted_document cy files)).
      total_dlc_completed b \<ge> 1
      \<and> total_dlc_completed b = sum_list (map snd (age_groups b))
      \<and> total_dlc_completed b = sum_list (map snd (pensioner_states b))"
proof -
  have "\<forall>(k, b) \<in> set (fst (fold (process_file cy) files ([], 0))). bucket_ok b"
    by (rule fold_files_ok) simp
  then show ?thesis
    by (auto simp: persisted_document_def save_dlc_analysis_data_def
        analyze_dlc_by_bank_pincode_def final_data_def Let_def bucket_ok_def)
qed


lemmas eval_defs = persisted_document_def save_dlc_analysis_data_def
  analyze_dlc_by_bank_pincode_def final_data_def Let_def process_row_def
  clean_pincode_def new_bucket_def update_bank_data_def get_age_group_int
  get_state_from_pincode_def int_of_str_def strip_def is_space_def is_digit_def
  digit_val_def parse_unsigned_def state_of_prefix_def

theorem persisted_buckets_ok_witness:
  "(''400001'',
     \<lparr>total_dlc_completed = 2, age_groups = [(''66-70'', 1), (''60-65'', 1)],
      state = ''Maharashtra'', pensioner_states = [(''Gujarat'', 2)]\<rparr>)
     \<in> set (bank_pincode_data (persisted_document 2024
        [Sheet [\<lparr>BRANCH_PINCODE = Cell ''400001.0'', PENSIONER_PINCODE = Cell ''380001.0'',
                  YOB = YobNum 1955\<rparr>,
                \<lparr>BRANCH_PINCODE = NA, PENSIONER_PINCODE = Cell ''380001'', YOB = YobNA\<rparr>],
         Unreadable,
         Sheet [\<lparr>BRANCH_PINCODE = Cell ''400001'', PENSIONER_PINCODE = Cell ''380015'',
                  YOB = YobNA\<rparr>]]))
   \<and> (2::int) \<ge> 1
   \<and> (2::int) = sum_list (map snd [(''66-70'', 1), (''60-65'', 1::int)])
   \<and> (2::int) = sum_list (map snd [(''Gujarat'', 2::int)])"
proof -
  let ?files = "[Sheet [\<lparr>BRANCH_PINCODE = Cell ''400001.0'', PENSIONER_PINCODE = Cell ''380001.0'',
                  YOB = YobNum 1955\<rparr>,
                \<lparr>BRANCH_PINCODE = NA, PENSIONER_PINCODE = Cell ''380001'', YOB = YobNA\<rparr>],
         Unreadable,
         Sheet [\<lparr>BRANCH_PINCODE = Cell ''400001'', PENSIONER_PINCODE = Cell ''380015'',
                  YOB = YobNA\<rparr>]]"
  let ?b = "\<lparr>total_dlc_completed = 2, age_groups = [(''66-70'', 1), (''60-65'', 1)],
      state = ''Maharashtra'', pensioner_states = [(''Gujarat'', 2)]\<rparr>"
  have mem: "(''400001'', ?b) \<in> set (bank_pincode_data (persisted_document 2024 ?files))"
    by (simp add: eval_defs)
  from persisted_buckets_ok [of 2024 ?files] mem
  have "total_dlc_completed ?b \<ge> 1
      \<and> total_dlc_completed ?b = sum_list (map snd (age_groups ?b))
      \<and> total_dlc_completed ?b = sum_list (map snd (pensioner_states ?b))"
    by blast
  with mem show ?thesis by simp
qed

lemma map_of_dd_update:
  "map_of (dd_update dflt k f d) =
     (map_of d)(k \<mapsto> f (case map_of d k of None \<Rightarrow> dflt | Some x \<Rightarrow> x))"
  by (induction d) (auto simp: fun_eq_iff)





text \<open>
  Claim C8. The normalisation of \<open>dlc_bank_analysis_fixed.py\<close> removes a \<open>.0\<close>
  inside the text as well, where the specification and the sibling code of \<open>app.py\<close>
  leave the text unchanged.
\<close>

theorem replace_removes_inner_dot0:
  "clean_pincode (Cell ''400001.05'') = ''4000015''
   \<and> strip_trailing_dot0 ''400001.05'' = ''400001.05''
   \<and> app_clean_pincode (Cell ''400001.05'') = ''400001.05''"
  by (simp add: clean_pincode_def strip_trailing_dot0_def app_clean_pincode_def endswith_def
      suffix_to_prefix)

section \<open>True division agrees with integer division below \<open>2\<^sup>5\<^sup>3\<close>\<close>

lemma bit_length_upper: "0 \<le> n \<Longrightarrow> n < 2 ^ bit_length n"
proof (induction n rule: bit_length.induct)
  case (1 n)
  show ?case
  proof (cases "n = 0")
    case True
    then show ?thesis by (simp add: bit_length.simps [of 0])
  next
    case False
    with 1 have "n div 2 < 2 ^ bit_length (n div 2)" by simp
    moreover have "bit_length n = Suc (bit_length (n div 2))"
      using False 1 by (simp add: bit_length.simps [of n])
    ultimately show ?thesis by simp
  qed
qed

lemma bit_length_lower: "0 < n \<Longrightarrow> 2 ^ bit_length n \<le> 2 * n"
proof (induction n rule: bit_length.induct)
  case (1 n)
  then have n: "0 < n" by simp
  have bl: "bit_length n = Suc (bit_length (n div 2))"
    using n by (simp add: bit_length.simps [of n])
  show ?case
  proof (cases "n div 2 = 0")
    case True
    then show ?thesis using n bl by (simp add: bit_length.simps [of 0])
  next
    case False
    with n have "0 < n div 2" by simp
    with 1 n have "2 ^ bit_length (n div 2) \<le> 2 * (n div 2)" by simp
    then show ?thesis using bl by simp
  qed
qed

lemma quotient_exponent_lower:
  assumes a: "0 < a" and b: "0 < b"
  shows "if quotient_exponent a b \<ge> 0 then b * 2 ^ nat (quotient_exponent a b) \<le> a
         else b \<le> a * 2 ^ nat (- quotient_exponent a b)"
proof -
  define d where "d = int (bit_length a) - int (bit_length b)"
  define t where "t = (if d \<ge> 0 then b * 2 ^ nat d \<le> a else b \<le> a * 2 ^ nat (- d))"
  have L: "quotient_exponent a b = (if t then d else d - 1)"
    by (simp add: quotient_exponent_def d_def t_def Let_def)
  have la: "2 ^ bit_length a \<le> 2 * a" using a by (rule bit_length_lower)
  have ub: "b < 2 ^ bit_length b" using b by (intro bit_length_upper) simp
  show ?thesis
  proof (cases t)
    case True
    then show ?thesis using L by (simp add: t_def)
  next
    case False
    show ?thesis
    proof (cases "d \<ge> 1")
      case True
      then have "bit_length a = bit_length b + nat (d - 1) + 1" by (simp add: d_def)
      then have "(2::int) ^ bit_length a = 2 ^ bit_length b * 2 ^ nat (d - 1) * 2"
        by (simp add: power_add)
      with la have "2 ^ bit_length b * 2 ^ nat (d - 1) \<le> a" by simp
      moreover have "b * 2 ^ nat (d - 1) \<le> 2 ^ bit_length b * 2 ^ nat (d - 1)"
        using ub by (intro mult_right_mono) simp_all
      ultimately have "b * 2 ^ nat (d - 1) \<le> a" by linarith
      then show ?thesis using L False True by simp
    next
      case d0: False
      then have "bit_length b + 1 = bit_length a + nat (1 - d)" by (simp add: d_def)
      then have "(2::int) ^ (bit_length b + 1) = 2 ^ (bit_length a + nat (1 - d))" by simp
      then have e: "(2::int) ^ bit_length b * 2 = 2 ^ bit_length a * 2 ^ nat (1 - d)"
        by (simp add: power_add)
      have "2 ^ bit_length a * 2 ^ nat (1 - d) \<le> (2 * a) * 2 ^ nat (1 - d)"
        using la by (intro mult_right_mono) simp_all
      with e ub have "2 * b \<le> 2 * a * 2 ^ nat (1 - d)" by linarith
      then have "b \<le> a * 2 ^ nat (1 - d)" by simp
      moreover have "- (d - 1) = 1 - d" by simp
      ultimately show ?thesis using L False d0 by simp
    qed
  qed
qed

lemma quotient_exponent_le:
  assumes a: "0 < a" and a53: "a < 2 ^ 53" and b: "0 < b"
  shows "quotient_exponent a b \<le> 52"
proof (rule ccontr)
  assume "\<not> quotient_exponent a b \<le> 52"
  then have L: "53 \<le> quotient_exponent a b" by simp
  with quotient_exponent_lower [OF a b]
  have "b * 2 ^ nat (quotient_exponent a b) \<le> a" by simp
  moreover have "(2::int) ^ 53 \<le> 2 ^ nat (quotient_exponent a b)"
    using L by (intro power_increasing) simp_all
  moreover have "1 * 2 ^ nat (quotient_exponent a b) \<le> b * 2 ^ nat (quotient_exponent a b)"
    using b by (intro mult_right_mono) simp_all
  ultimately show False using a53 by simp
qed

lemma div_succ_same:
  fixes q K :: int
  assumes "0 < K" and "q mod K \<noteq> K - 1"
  shows "(q + 1) div K = q div K"
proof -
  have "0 \<le> q mod K" "q mod K < K" using assms by simp_all
  with assms have r: "0 \<le> q mod K + 1" "q mod K + 1 < K" by simp_all
  have "q + 1 = K * (q div K) + (q mod K + 1)" by simp
  then show ?thesis using r by (metis int_div_pos_eq)
qed

lemma truncate_rounded:
  fixes a b :: int
  assumes a: "0 < a" and a53: "a < 2 ^ 53" and b: "0 < b"
    and norm: "2 ^ 52 * b \<le> a * 2 ^ k \<or> k = 1074"
  shows "round_half_even (a * 2 ^ k) b div 2 ^ k = a div b"
proof -
  define K :: int where "K = 2 ^ k"
  define N where "N = a * K"
  define q where "q = N div b"
  define r where "r = N mod b"
  define n where "n = a div b"
  have K: "0 < K" by (simp add: K_def)
  have N: "N = q * b + r" by (simp add: q_def r_def)
  have r: "0 \<le> r" "r < b" using b by (simp_all add: r_def)
  have n0: "0 \<le> n" using a b by (simp add: n_def pos_imp_zdiv_nonneg_iff)
  have q0: "0 \<le> q" using a b K by (simp add: q_def N_def pos_imp_zdiv_nonneg_iff)
  have qn: "q div K = n"
  proof -
    have "q div K = N div (b * K)" using K by (simp add: q_def zdiv_zmult2_eq)
    also have "\<dots> = n" using K by (simp add: N_def n_def)
    finally show ?thesis .
  qed
  have rhe: "round_half_even N b = (if 2 * r > b \<or> (2 * r = b \<and> odd q) then q + 1 else q)"
    by (simp add: round_half_even_def q_def r_def Let_def)
  have "(q + 1) div K = q div K" if up: "b \<le> 2 * r"
  proof (rule ccontr)
    assume neq: "(q + 1) div K \<noteq> q div K"
    then have "q mod K = K - 1" using div_succ_same [OF K] by blast
    then have "q = K * n + (K - 1)" using qn by (metis mult_div_mod_eq)
    then have q1: "q + 1 = (n + 1) * K" by (simp add: algebra_simps)
    define X where "X = (n + 1) * b * K"
    have qb: "q * b + b = X"
    proof -
      have "q * b + b = (q + 1) * b" by (simp add: algebra_simps)
      also have "\<dots> = (n + 1) * K * b" by (simp only: q1)
      also have "\<dots> = X" by (simp add: X_def mult.assoc mult.commute)
      finally show ?thesis .
    qed
    have "a < (n + 1) * b"
    proof -
      have "a = b * n + a mod b" by (simp add: n_def)
      moreover have "a mod b < b" using b by simp
      ultimately show ?thesis by (simp add: algebra_simps)
    qed
    then have "a + 1 \<le> (n + 1) * b" by simp
    then have "(a + 1) * K \<le> (n + 1) * b * K" using K by (intro mult_right_mono) simp_all
    then have NK: "N + K \<le> X" by (simp add: N_def X_def algebra_simps)
    from N up qb NK have b2K: "2 * K \<le> b" by linarith
    from norm show False
    proof
      assume "2 ^ 52 * b \<le> a * 2 ^ k"
      then have "2 ^ 52 * b \<le> a * K" by (simp add: K_def)
      moreover have "2 ^ 52 * (2 * K) \<le> 2 ^ 52 * b" using b2K by simp
      ultimately have "2 ^ 53 * K \<le> a * K" by simp
      then have "2 ^ 53 \<le> a" using K by simp
      with a53 show False by simp
    next
      assume k: "k = 1074"
      have "q * (2 * K) \<le> q * b" using q0 b2K by (intro mult_left_mono)
      moreover have "q * b \<le> N" using N r by simp
      moreover have "N < 2 ^ 53 * K" using a53 K by (simp add: N_def)
      ultimately have "(2 * q) * K < 2 ^ 53 * K" by (simp add: algebra_simps)
      then have "2 * q < 2 ^ 53" using K by simp
      then have q52: "q + 1 \<le> 2 ^ 52" by simp
      have "1 * K \<le> (n + 1) * K" using n0 K by (intro mult_right_mono) simp_all
      with q1 have "K \<le> q + 1" by simp
      moreover have "(2::int) ^ 52 < 2 ^ 1074" by (rule power_strict_increasing) simp_all
      ultimately show False using q52 by (simp add: K_def k)
    qed
  qed
  then have "round_half_even N b div K = q div K"
    unfolding rhe by auto
  then have "round_half_even N b div K = n" by (simp only: qn)
  then show ?thesis by (simp only: N_def K_def n_def)
qed

lemma nearest_double_exact:
  assumes a: "0 < a" and a53: "a < 2 ^ 53" and b: "0 < b"
  obtains m e where "nearest_double a b = (m, e)" "e \<le> 0" "0 \<le> m" "m div 2 ^ nat (- e) = a div b"
proof -
  define L where "L = quotient_exponent a b"
  define e where "e = max (L - 52) (- 1074)"
  define m where "m = round_half_even (a * 2 ^ nat (- e)) b"
  have L52: "L \<le> 52" unfolding L_def using a a53 b by (rule quotient_exponent_le)
  then have e0: "e \<le> 0" by (simp add: e_def)
  have nd: "nearest_double a b = (m, e)"
  proof (cases "e = 0")
    case True
    then show ?thesis by (simp add: nearest_double_def Let_def L_def [symmetric] e_def [symmetric] m_def)
  next
    case False
    with e0 have "\<not> e \<ge> 0" by simp
    then show ?thesis by (simp add: nearest_double_def Let_def L_def [symmetric] e_def [symmetric] m_def)
  qed
  have norm: "2 ^ 52 * b \<le> a * 2 ^ nat (- e) \<or> nat (- e) = 1074"
  proof (cases "L - 52 \<ge> - 1074")
    case False
    then show ?thesis by (simp add: e_def)
  next
    case True
    then have e: "- e = 52 - L" by (simp add: e_def)
    have "2 ^ 52 * b \<le> a * 2 ^ nat (52 - L)"
    proof (cases "L \<ge> 0")
      case True
      with quotient_exponent_lower [OF a b] have "b * 2 ^ nat L \<le> a" by (simp add: L_def)
      then have "b * 2 ^ nat L * 2 ^ nat (52 - L) \<le> a * 2 ^ nat (52 - L)"
        by (intro mult_right_mono) simp_all
      moreover have "nat L + nat (52 - L) = 52" using True L52 by simp
      then have "(2::int) ^ nat L * 2 ^ nat (52 - L) = 2 ^ 52"
        by (simp add: power_add [symmetric])
      ultimately show ?thesis by (simp add: mult.assoc mult.commute)
    next
      case False
      with quotient_exponent_lower [OF a b] have "b \<le> a * 2 ^ nat (- L)" by (simp add: L_def)
      then have "b * 2 ^ 52 \<le> a * 2 ^ nat (- L) * 2 ^ 52" by (intro mult_right_mono) simp_all
      moreover have "nat (- L) + 52 = nat (52 - L)" using False by simp
      then have "(2::int) ^ nat (52 - L) = 2 ^ (nat (- L) + 52)" by (simp only:)
      then have "(2::int) ^ nat (- L) * 2 ^ 52 = 2 ^ nat (52 - L)"
        by (simp only: power_add)
      then have "a * 2 ^ nat (- L) * 2 ^ 52 = a * 2 ^ nat (52 - L)"
        by (simp only: mult.assoc)
      ultimately have "b * 2 ^ 52 \<le> a * 2 ^ nat (52 - L)" by (simp only:)
      then show ?thesis by (simp only: mult.commute)
    qed
    then show ?thesis by (simp add: e)
  qed
  have md: "m div 2 ^ nat (- e) = a div b"
    unfolding m_def using a a53 b norm by (rule truncate_rounded)
  have m0: "0 \<le> m"
  proof -
    have "0 \<le> (a * 2 ^ nat (- e)) div b" using a b by (simp add: pos_imp_zdiv_nonneg_iff)
    then show ?thesis by (simp add: m_def round_half_even_def Let_def)
  qed
  from nd e0 m0 md show ?thesis by (rule that)
qed

lemma int_true_div_exact:
  assumes "0 \<le> a" and a53: "a < 2 ^ 53" and b: "0 < b"
  shows "(case py_true_div a b of Inl err \<Rightarrow> Inl err | Inr x \<Rightarrow> Inr (int_of_float x))
           = Inr (a div b)"
proof (cases "a = 0")
  case True
  then show ?thesis using b by (simp add: py_true_div_def)
next
  case False
  with assms have pos: "0 < a" by simp
  from nearest_double_exact [OF pos a53 b]
  obtain m e where nd: "nearest_double a b = (m, e)" and e: "e \<le> 0" and m: "0 \<le> m"
    and md: "m div 2 ^ nat (- e) = a div b" by blast
  have sg: "sgn a * sgn b * m = m" using pos b by simp
  have "int_of_float (Dyadic m e) = a div b"
  proof (cases "e = 0")
    case True
    with md show ?thesis by simp
  next
    case False
    with e have "\<not> e \<ge> 0" by simp
    moreover have "sgn m * (\<bar>m\<bar> div 2 ^ nat (- e)) = m div 2 ^ nat (- e)"
      using m by (cases "m = 0") simp_all
    ultimately show ?thesis using md by simp
  qed
  moreover have "py_true_div a b = Inr (Dyadic m e)"
    using pos b e nd sg by (simp add: py_true_div_def)
  ultimately show ?thesis by simp
qed

lemma proportional_count_exact:
  assumes "0 \<le> A * P" and "A * P < 2 ^ 53" and "0 < T"
  shows "proportional_count A P T = Inr ((A * P) div T)"
  unfolding proportional_count_def using assms by (rule int_true_div_exact)

section \<open>Properties of the bank-location rollup\<close>

lemma count_of_dd_add: "count_of (dd_add k v d) S = count_of d S + (if S = k then v else 0)"
  by (induction d) (auto simp: count_of_def)

lemma state_totals_fold:
  "count_of (fold (\<lambda>(pin, data) acc. dd_add (state data) (total_dlc_completed data) acc) bd acc) S
     = count_of acc S + completions_in_state bd S"
  by (induction bd arbitrary: acc) (auto simp: completions_in_state_def count_of_dd_add)

lemma acc_total_step:
  "acc_total (dd_update new_bank_state_acc st (add_bank_pincode pin data) acc) S
     = acc_total acc S + (if S = st then total_dlc_completed data else 0)"
  by (simp add: acc_total_def map_of_dd_update add_bank_pincode_def new_bank_state_acc_def
      split: option.splits)

lemma state_wise_fold:
  "acc_total (fold (\<lambda>(pin, data). dd_update new_bank_state_acc (state data)
                       (add_bank_pincode pin data)) bd acc) S
     = acc_total acc S + completions_in_state bd S"
  by (induction bd arbitrary: acc) (auto simp: completions_in_state_def acc_total_step)

lemma bank_location_total_eq:
  "bank_location_total (state_final bd) S = completions_in_state bd S"
proof -
  have "bank_location_total (state_final bd) S = acc_total (state_wise_data bd) S"
    by (simp add: bank_location_total_def state_final_def acc_total_def map_of_map
        split: option.splits)
  also have "\<dots> = completions_in_state bd S"
    unfolding state_wise_data_def state_wise_fold by (simp add: acc_total_def)
  finally show ?thesis .
qed

lemma state_totals_eq: "count_of (state_totals bd) S = completions_in_state bd S"
  unfolding state_totals_def state_totals_fold by (simp add: count_of_def)

lemma state_wise_keys_fold:
  "fst ` set (fold (\<lambda>(pin, data). dd_update new_bank_state_acc (state data)
                       (add_bank_pincode pin data)) bd acc)
     = fst ` set acc \<union> (\<lambda>(pin, data). state data) ` set bd"
proof (induction bd arbitrary: acc)
  case Nil
  show ?case by simp
next
  case (Cons x bd)
  obtain pin data where x: "x = (pin, data)" by (cases x)
  have "fst ` set (dd_update new_bank_state_acc (state data) (add_bank_pincode pin data) acc)
          = insert (state data) (fst ` set acc)"
    using dd_update_keys [of new_bank_state_acc "state data" "add_bank_pincode pin data" acc]
    by (metis (no_types, lifting) insert_absorb list.set_map set_append list.simps(15)
        Un_insert_right sup_bot.right_neutral empty_set)
  then show ?case by (simp add: x Cons.IH)
qed

lemma state_final_keys: "fst ` set (state_final bd) = (\<lambda>(pin, data). state data) ` set bd"
proof -
  have "fst ` set (state_final bd) = fst ` set (state_wise_data bd)"
    by (force simp: state_final_def)
  then show ?thesis by (simp add: state_wise_data_def state_wise_keys_fold)
qed

text \<open>
  Claim C3. In the bank-location state rollup, for every state \<open>S\<close>, the rolled-up
  \<open>total_pensioners\<close> of \<open>S\<close> is the exact sum of \<open>total_dlc_completed\<close> over the
  bank pincodes whose stored state is \<open>S\<close>; the state totals of the analysis report are
  the same sum.
\<close>

theorem bank_location_conservation:
  "bank_location_total (state_final bank_data) S = completions_in_state bank_data S
   \<and> count_of (state_totals bank_data) S = completions_in_state bank_data S"
  by (simp add: bank_location_total_eq state_totals_eq)

section \<open>Properties of the top-N projections\<close>

lemma sorted_reverse_descending: "sorted_wrt (\<lambda>x y. f x \<ge> f y) (sorted_reverse f xs)"
proof -
  have "sorted (map (\<lambda>x. - f x) (sorted_reverse f xs))"
    unfolding sorted_reverse_def by (rule sorted_sort_key)
  then show ?thesis by (simp add: sorted_map sorted_wrt_iff_nth_less)
qed

lemma sorted_reverse_stable:
  "filter (\<lambda>x. f x = c) (sorted_reverse f xs) = filter (\<lambda>x. f x = c) xs"
proof -
  have "filter (\<lambda>x. - f x = - c) (sort_key (\<lambda>x. - f x) xs) = filter (\<lambda>x. - f x = - c) xs"
    by (rule sort_key_stable)
  then show ?thesis by (simp add: sorted_reverse_def)
qed

lemma prefix_filter_take: "prefix (filter P (take n xs)) (filter P xs)"
proof -
  have "filter P xs = filter P (take n xs) @ filter P (drop n xs)"
    by (metis append_take_drop_id filter_append)
  then show ?thesis by (metis prefixI)
qed

section \<open>Properties of the residence rollup\<close>

lemma map_of_dict_set: "map_of (dict_set k v d) = (map_of d)(k \<mapsto> v)"
  by (induction d) (auto simp: fun_eq_iff)

lemma dict_set_keys: "fst ` set (dict_set k v d) = insert k (fst ` set d)"
proof (induction d)
  case Nil
  show ?case by simp
next
  case (Cons p d)
  obtain k' x where p: "p = (k', x)" by (cases p)
  show ?case using Cons.IH by (cases "k' = k") (auto simp: p)
qed

lemma add_residents_drop: "add_residents (drop_sentinels data) = add_residents data"
  by (simp add: fun_eq_iff add_residents_def drop_sentinels_def Let_def)

lemma distribute_pensioners_drop:
  "distribute_pensioners (drop_sentinels data) l sw = distribute_pensioners data l sw"
  by (induction l arbitrary: sw) (auto simp: add_residents_drop split: sum.splits)

lemma distribute_pensioners_filter:
  "distribute_pensioners data (filter (\<lambda>(st, c). residence_state_ok st) l) sw
     = distribute_pensioners data l sw"
  by (induction l arbitrary: sw) (auto split: sum.splits)

lemma rollup_loop_drop:
  "rollup_loop (map (\<lambda>(p, d). (p, drop_sentinels d)) bd) sw = rollup_loop bd sw"
proof (induction bd arbitrary: sw)
  case Nil
  show ?case by simp
next
  case (Cons x bd)
  obtain p d where x: "x = (p, d)" by (cases x)
  have "distribute_pensioners (drop_sentinels d) (pensioner_states (drop_sentinels d)) sw
          = distribute_pensioners d (pensioner_states d) sw"
    by (simp add: distribute_pensioners_drop)
       (simp add: drop_sentinels_def distribute_pensioners_filter)
  then show ?case by (simp add: x Cons.IH split: sum.splits)
qed

lemma distribute_pensioners_keys:
  "distribute_pensioners data l sw = Inr out \<Longrightarrow>
     fst ` set out \<subseteq> fst ` set sw \<union> {s. residence_state_ok s}"
proof (induction l arbitrary: sw)
  case Nil
  then show ?case by auto
next
  case (Cons x l)
  obtain s P where x: "x = (s, P)" by (cases x)
  show ?case
  proof (cases "residence_state_ok s")
    case False
    with Cons.prems have "distribute_pensioners data l sw = Inr out" by (simp add: x)
    then show ?thesis by (rule Cons.IH)
  next
    case True
    with Cons.prems obtain e where
      "distribute_pensioners data l (dict_set s e sw) = Inr out"
      by (auto simp: x split: sum.splits)
    then have "fst ` set out \<subseteq> fst ` set (dict_set s e sw) \<union> {s. residence_state_ok s}"
      by (rule Cons.IH)
    then show ?thesis using True by (auto simp: dict_set_keys)
  qed
qed

lemma rollup_loop_keys:
  "rollup_loop bd sw = Inr out \<Longrightarrow> fst ` set out \<subseteq> fst ` set sw \<union> {s. residence_state_ok s}"
proof (induction bd arbitrary: sw)
  case Nil
  then show ?case by auto
next
  case (Cons x bd)
  obtain p d where x: "x = (p, d)" by (cases x)
  from Cons.prems obtain sw' where 1: "distribute_pensioners d (pensioner_states d) sw = Inr sw'"
    and 2: "rollup_loop bd sw' = Inr out"
    by (auto simp: x split: sum.splits)
  from distribute_pensioners_keys [OF 1] Cons.IH [OF 2] show ?case by blast
qed

lemma residence_rollup_no_sentinel:
  "case residence_rollup bd of
     Inl err \<Rightarrow> True
   | Inr out \<Rightarrow> ''Invalid Pincode'' \<notin> fst ` set out \<and> ''Other State'' \<notin> fst ` set out
                 \<and> [] \<notin> fst ` set out"
proof (cases "residence_rollup bd")
  case (Inl err)
  then show ?thesis by simp
next
  case (Inr out)
  then have "fst ` set out \<subseteq> {s. residence_state_ok s}"
    using rollup_loop_keys [of bd "[]" out] by (simp add: residence_rollup_def)
  then have "''Invalid Pincode'' \<notin> fst ` set out \<and> ''Other State'' \<notin> fst ` set out
              \<and> [] \<notin> fst ` set out"
    by (auto simp: residence_state_ok_def)
  with Inr show ?thesis by simp
qed

text \<open>
  Claim C9. The residence-based rollup is the same with and without the pensioner-state
  entries labelled \<open>Invalid Pincode\<close>, \<open>Other State\<close> or empty: they add nothing to
  any total, age-group histogram or bank-location count, and no such label is a key of
  the result. The bank-location rollup has an entry for the stored state of every bank
  pincode, sentinel labels included, with the full total of completions.
\<close>

theorem sentinels_excluded_from_residence_rollup:
  "residence_rollup (map (\<lambda>(p, d). (p, drop_sentinels d)) bank_data) = residence_rollup bank_data
   \<and> (case residence_rollup bank_data of
        Inl err \<Rightarrow> True
      | Inr out \<Rightarrow> ''Invalid Pincode'' \<notin> fst ` set out \<and> ''Other State'' \<notin> fst ` set out
                    \<and> [] \<notin> fst ` set out)
   \<and> fst ` set (state_final bank_data) = (\<lambda>(pin, data). state data) ` set bank_data
   \<and> bank_location_total (state_final bank_data) ''Other State''
        = completions_in_state bank_data ''Other State''
   \<and> bank_location_total (state_final bank_data) ''Invalid Pincode''
        = completions_in_state bank_data ''Invalid Pincode''"
  using residence_rollup_no_sentinel [of bank_data]
  by (simp add: residence_rollup_def rollup_loop_drop state_final_keys bank_location_total_eq)


theorem sentinels_excluded_witness:
  "residence_rollup
     [(''400001'', \<lparr>total_dlc_completed = 100, age_groups = [(''66-70'', 40), (''60-65'', 60)],
         state = ''Other State'',
         pensioner_states = [(''Gujarat'', 25), (''Other State'', 70), (''Invalid Pincode'', 5)]\<rparr>)]
     = Inr [(''Gujarat'', \<lparr>rs_total_pensioners = 25,
              rs_age_groups = [(''66-70'', 10), (''60-65'', 15)],
              rs_bank_locations = [(''Other State'', 25)], rs_pincode_counts = []\<rparr>)]
   \<and> bank_location_total (state_final
     [(''400001'', \<lparr>total_dlc_completed = 100, age_groups = [(''66-70'', 40), (''60-65'', 60)],
         state = ''Other State'',
         pensioner_states = [(''Gujarat'', 25), (''Other State'', 70), (''Invalid Pincode'', 5)]\<rparr>)])
       ''Other State'' = 100"
  using sentinels_excluded_from_residence_rollup
    [of "[(''400001'', \<lparr>total_dlc_completed = 100, age_groups = [(''66-70'', 40), (''60-65'', 60)],
         state = ''Other State'',
         pensioner_states = [(''Gujarat'', 25), (''Other State'', 70), (''Invalid Pincode'', 5)]\<rparr>)]"]
  by (simp add: residence_rollup_def residence_state_ok_def add_residents_def entry_of_def
      new_residence_entry_def proportional_count_exact completions_in_state_def Let_def)

section \<open>The proportional redistribution\<close>

lemma distribute_age_groups_exact:
  assumes "0 < T" and "list_all (\<lambda>(g, A). 0 \<le> A * P \<and> A * P < 2 ^ 53) ags"
  shows "distribute_age_groups P T ags acc
           = Inr (fold (\<lambda>(g, A). dd_add g ((A * P) div T)) ags acc)"
  using assms by (induction ags arbitrary: acc) (auto simp: proportional_count_exact)

lemma count_of_fold_add:
  "count_of (fold (\<lambda>(g, A). dd_add g (h A)) ags acc) k
     = count_of acc k + sum_list (map (\<lambda>(g, A). h A) (filter (\<lambda>(g, A). g = k) ags))"
  by (induction ags arbitrary: acc) (auto simp: count_of_dd_add)

lemma sum_fold_add:
  "sum_list (map snd (fold (\<lambda>(g, A). dd_add g (h A)) ags acc))
     = sum_list (map snd acc) + sum_list (map (\<lambda>(g, A). h A) ags)"
  by (induction ags arbitrary: acc) (auto simp: sum_dd_add)

lemma filter_key_distinct:
  "distinct (map fst l) \<Longrightarrow> (k, v) \<in> set l \<Longrightarrow> filter (\<lambda>(k', v'). k' = k) l = [(k, v)]"
proof (induction l)
  case Nil
  then show ?case by simp
next
  case (Cons x l)
  obtain k' v' where x: "x = (k', v')" by (cases x)
  show ?case
  proof (cases "k' = k")
    case True
    with Cons.prems x have "k \<notin> fst ` set l" by simp
    then have "filter (\<lambda>(k', v'). k' = k) l = []"
      by (auto simp: filter_empty_conv image_iff)
    moreover from Cons.prems x True \<open>k \<notin> fst ` set l\<close> have "v' = v" by force
    ultimately show ?thesis using x True by simp
  next
    case False
    with Cons.prems x have "(k, v) \<in> set l" "distinct (map fst l)" by auto
    then show ?thesis using Cons.IH False x by simp
  qed
qed

lemma add_residents_exact:
  assumes "0 < total_dlc_completed data"
    and "list_all (\<lambda>(g, A). 0 \<le> A * P \<and> A * P < 2 ^ 53) (age_groups data)"
  shows "add_residents data P e =
           Inr (e\<lparr>rs_total_pensioners := rs_total_pensioners e + P,
                  rs_bank_locations := dd_add (state data) P (rs_bank_locations e),
                  rs_age_groups := fold (\<lambda>(g, A). dd_add g ((A * P) div total_dlc_completed data))
                                     (age_groups data) (rs_age_groups e)\<rparr>)"
  using assms by (simp add: add_residents_def Let_def distribute_age_groups_exact)

lemma age_count_of_dict_set:
  "age_count_of (dict_set s e sw) st g =
     (if st = s then count_of (rs_age_groups e) g else age_count_of sw st g)"
  by (simp add: age_count_of_def entry_of_def map_of_dict_set)

lemma redistributed_sum_dict_set:
  "redistributed_sum (dict_set s e sw) =
     redistributed_sum sw - sum_list (map snd (rs_age_groups (entry_of sw s)))
       + sum_list (map snd (rs_age_groups e))"
proof (induction sw)
  case Nil
  show ?case by (simp add: redistributed_sum_def entry_of_def new_residence_entry_def)
next
  case (Cons p sw)
  obtain k x where p: "p = (k, x)" by (cases p)
  have IH: "redistributed_sum (dict_set s e sw) =
     redistributed_sum sw - sum_list (map snd (rs_age_groups (entry_of sw s)))
       + sum_list (map snd (rs_age_groups e))" by (rule Cons.IH)
  show ?case
  proof (cases "k = s")
    case True
    then show ?thesis by (simp add: p redistributed_sum_def entry_of_def)
  next
    case False
    have "entry_of ((k, x) # sw) s = entry_of sw s" using False by (simp add: entry_of_def)
    moreover have "redistributed_sum ((k, x) # dict_set s e sw)
        = sum_list (map snd (rs_age_groups x)) + redistributed_sum (dict_set s e sw)"
      by (simp add: redistributed_sum_def)
    moreover have "redistributed_sum ((k, x) # sw)
        = sum_list (map snd (rs_age_groups x)) + redistributed_sum sw"
      by (simp add: redistributed_sum_def)
    ultimately show ?thesis using False IH by (simp add: p)
  qed
qed

lemma distribute_pensioners_exact:
  assumes T: "0 < total_dlc_completed data"
    and ex: "list_all (\<lambda>(st, P). list_all (\<lambda>(g, A). 0 \<le> A * P \<and> A * P < 2 ^ 53)
                (age_groups data)) l"
  shows "\<exists>out. distribute_pensioners data l sw = Inr out
           \<and> (\<forall>st g. age_count_of out st g = age_count_of sw st g + state_share data l st g)
           \<and> redistributed_sum out = redistributed_sum sw
                + sum_list (map (\<lambda>(s, P). bucket_share data P)
                             (filter (\<lambda>(s, P). residence_state_ok s) l))"
  using ex
proof (induction l arbitrary: sw)
  case Nil
  show ?case by (simp add: state_share_def)
next
  case (Cons x l)
  obtain s P where x: "x = (s, P)" by (cases x)
  from Cons.prems x have exP: "list_all (\<lambda>(g, A). 0 \<le> A * P \<and> A * P < 2 ^ 53) (age_groups data)"
    and exl: "list_all (\<lambda>(st, P). list_all (\<lambda>(g, A). 0 \<le> A * P \<and> A * P < 2 ^ 53)
                (age_groups data)) l" by simp_all
  show ?case
  proof (cases "residence_state_ok s")
    case False
    from Cons.IH [OF exl, of sw] obtain out where
      "distribute_pensioners data l sw = Inr out"
      "\<forall>st g. age_count_of out st g = age_count_of sw st g + state_share data l st g"
      "redistributed_sum out = redistributed_sum sw
         + sum_list (map (\<lambda>(s, P). bucket_share data P) (filter (\<lambda>(s, P). residence_state_ok s) l))"
      by blast
    then show ?thesis using False by (simp add: x state_share_def)
  next
    case True
    define e where "e = (entry_of sw s)\<lparr>rs_total_pensioners := rs_total_pensioners (entry_of sw s) + P,
        rs_bank_locations := dd_add (state data) P (rs_bank_locations (entry_of sw s)),
        rs_age_groups := fold (\<lambda>(g, A). dd_add g ((A * P) div total_dlc_completed data))
                           (age_groups data) (rs_age_groups (entry_of sw s))\<rparr>"
    have ar: "add_residents data P (entry_of sw s) = Inr e"
      unfolding e_def using T exP by (rule add_residents_exact)
    have ce: "count_of (rs_age_groups e) g = age_count_of sw s g + age_share data P g" for g
      by (simp add: e_def count_of_fold_add age_count_of_def age_share_def)
    have se: "sum_list (map snd (rs_age_groups e))
        = sum_list (map snd (rs_age_groups (entry_of sw s))) + bucket_share data P"
      by (simp add: e_def sum_fold_add bucket_share_def)
    from Cons.IH [OF exl, of "dict_set s e sw"] obtain out where
      1: "distribute_pensioners data l (dict_set s e sw) = Inr out"
      and 2: "\<forall>st g. age_count_of out st g
                = age_count_of (dict_set s e sw) st g + state_share data l st g"
      and 3: "redistributed_sum out = redistributed_sum (dict_set s e sw)
         + sum_list (map (\<lambda>(s, P). bucket_share data P) (filter (\<lambda>(s, P). residence_state_ok s) l))"
      by blast
    have a: "distribute_pensioners data (x # l) sw = Inr out"
      using True ar 1 by (simp add: x)
    have b: "age_count_of out st g = age_count_of sw st g + state_share data (x # l) st g" for st g
      using 2 True by (simp add: x age_count_of_dict_set ce state_share_def)
    have c: "redistributed_sum out = redistributed_sum sw
         + sum_list (map (\<lambda>(s, P). bucket_share data P)
                      (filter (\<lambda>(s, P). residence_state_ok s) (x # l)))"
      using 3 True by (simp add: x redistributed_sum_dict_set se)
    from a b c show ?thesis by blast
  qed
qed

lemma state_share_distinct:
  assumes "residence_state_ok st" and "(st, P) \<in> set l" and "distinct (map fst l)"
    and "(g, A) \<in> set (age_groups data)" and "distinct (map fst (age_groups data))"
  shows "state_share data l st g = (A * P) div total_dlc_completed data"
proof -
  have "filter (\<lambda>(s, P). s = st \<and> residence_state_ok s) l = filter (\<lambda>(s, P). s = st) l"
    using assms(1) by (intro filter_cong) auto
  also have "\<dots> = [(st, P)]" using assms(3,2) by (rule filter_key_distinct)
  finally have "state_share data l st g = age_share data P g" by (simp add: state_share_def)
  moreover have "filter (\<lambda>(g', A). g' = g) (age_groups data) = [(g, A)]"
    using assms(5,4) by (rule filter_key_distinct)
  ultimately show ?thesis by (simp add: age_share_def)
qed

text \<open>
  Claim C1, amended. For a bank-pincode bucket with total completions \<open>T > 0\<close>, an age
  group with count \<open>A\<close> and a pensioner residence state with count \<open>P\<close> that passes the
  guard (not empty, not \<open>Invalid Pincode\<close>, not \<open>Other State\<close>), where every product of an
  age-group count and a pensioner-state count of the bucket is in \<open>[0, 2\<^sup>5\<^sup>3)\<close>, the
  rollup of the bucket succeeds and adds exactly \<open>\<lfloor>A * P / T\<rfloor>\<close> to that state's count
  for that age group. For \<open>T = 100\<close>, \<open>A = 40\<close> of \<open>66-70\<close> and \<open>P = 25\<close> of Gujarat
  this is 10.
\<close>

theorem proportional_share_added:
  assumes "residence_state_ok st"
    and "(st, P) \<in> set (pensioner_states data)"
    and "distinct (map fst (pensioner_states data))"
    and "(g, A) \<in> set (age_groups data)"
    and "distinct (map fst (age_groups data))"
    and "0 < total_dlc_completed data"
    and "products_exact data"
  shows "\<exists>out. distribute_pensioners data (pensioner_states data) sw = Inr out
           \<and> age_count_of out st g
               = age_count_of sw st g + (A * P) div total_dlc_completed data"
proof -
  from assms(7) have "list_all (\<lambda>(st, P). list_all (\<lambda>(g, A). 0 \<le> A * P \<and> A * P < 2 ^ 53)
                (age_groups data)) (pensioner_states data)"
    by (simp add: products_exact_def)
  from distribute_pensioners_exact [OF assms(6) this, of sw] obtain out where
    "distribute_pensioners data (pensioner_states data) sw = Inr out"
    "\<forall>st g. age_count_of out st g
        = age_count_of sw st g + state_share data (pensioner_states data) st g"
    by blast
  then show ?thesis using state_share_distinct [OF assms(1-5)] by simp
qed


lemmas rollup_eval = residence_rollup_def residence_state_ok_def add_residents_def entry_of_def
  new_residence_entry_def Let_def

theorem proportional_share_added_witness:
  "residence_state_ok ''Gujarat''
   \<and> products_exact \<lparr>total_dlc_completed = 100, age_groups = [(''66-70'', 40)],
         state = ''Maharashtra'', pensioner_states = [(''Gujarat'', 25)]\<rparr>
   \<and> distribute_pensioners
         \<lparr>total_dlc_completed = 100, age_groups = [(''66-70'', 40)],
          state = ''Maharashtra'', pensioner_states = [(''Gujarat'', 25)]\<rparr>
         [(''Gujarat'', 25)] []
       = Inr [(''Gujarat'', \<lparr>rs_total_pensioners = 25, rs_age_groups = [(''66-70'', 10)],
                rs_bank_locations = [(''Maharashtra'', 25)], rs_pincode_counts = []\<rparr>)]
   \<and> age_count_of [(''Gujarat'', \<lparr>rs_total_pensioners = 25, rs_age_groups = [(''66-70'', 10)],
                rs_bank_locations = [(''Maharashtra'', 25)], rs_pincode_counts = []\<rparr>)]
         ''Gujarat'' ''66-70'' = 10"
proof -
  let ?d = "\<lparr>total_dlc_completed = 100, age_groups = [(''66-70'', 40)],
         state = ''Maharashtra'', pensioner_states = [(''Gujarat'', 25)]\<rparr>"
  have ok: "residence_state_ok ''Gujarat''" by (simp add: residence_state_ok_def)
  have pe: "products_exact ?d" by (simp add: products_exact_def)
  from proportional_share_added [of "''Gujarat''" 25 ?d "''66-70''" 40 "[]", OF ok _ _ _ _ _ pe]
  obtain out where out: "distribute_pensioners ?d (pensioner_states ?d) [] = Inr out"
    and cnt: "age_count_of out ''Gujarat'' ''66-70''
                = age_count_of [] ''Gujarat'' ''66-70'' + (40 * 25) div total_dlc_completed ?d"
    by auto
  have ev: "distribute_pensioners ?d [(''Gujarat'', 25)] []
       = Inr [(''Gujarat'', \<lparr>rs_total_pensioners = 25, rs_age_groups = [(''66-70'', 10)],
                rs_bank_locations = [(''Maharashtra'', 25)], rs_pincode_counts = []\<rparr>)]"
    by (simp add: rollup_eval proportional_count_exact)
  with out have "out = [(''Gujarat'', \<lparr>rs_total_pensioners = 25, rs_age_groups = [(''66-70'', 10)],
                rs_bank_locations = [(''Maharashtra'', 25)], rs_pincode_counts = []\<rparr>)]"
    by simp
  with cnt have "age_count_of [(''Gujarat'', \<lparr>rs_total_pensioners = 25,
        rs_age_groups = [(''66-70'', 10)],
        rs_bank_locations = [(''Maharashtra'', 25)], rs_pincode_counts = []\<rparr>)]
         ''Gujarat'' ''66-70'' = 10"
    by (simp add: age_count_of_def entry_of_def new_residence_entry_def count_of_def)
  with ok pe ev show ?thesis by simp
qed

lemma double_rounds_up:
  "proportional_count 9007199254740993 9007199254740993 9007199254740993 = Inr 9007199254740992"
  by code_simp

text \<open>
  Claim C1 as stated fails twice: a pensioner state labelled \<open>Other State\<close> receives
  nothing, and beyond \<open>2\<^sup>5\<^sup>3\<close> the float quotient is rounded before it is truncated.
\<close>

theorem proportional_share_counterexample:
  "residence_rollup
     [(''400001'', \<lparr>total_dlc_completed = 100, age_groups = [(''66-70'', 40)],
         state = ''Maharashtra'', pensioner_states = [(''Other State'', 25)]\<rparr>)] = Inr []
   \<and> age_count_of [] ''Other State'' ''66-70'' \<noteq> (40 * 25) div 100
   \<and> residence_rollup
     [(''400001'', \<lparr>total_dlc_completed = 9007199254740993,
         age_groups = [(''66-70'', 9007199254740993)],
         state = ''Maharashtra'', pensioner_states = [(''Gujarat'', 9007199254740993)]\<rparr>)]
     = Inr [(''Gujarat'', \<lparr>rs_total_pensioners = 9007199254740993,
              rs_age_groups = [(''66-70'', 9007199254740992)],
              rs_bank_locations = [(''Maharashtra'', 9007199254740993)],
              rs_pincode_counts = []\<rparr>)]
   \<and> (9007199254740993 * 9007199254740993) div 9007199254740993 \<noteq> (9007199254740992 :: int)"
proof -
  have 1: "residence_rollup
     [(''400001'', \<lparr>total_dlc_completed = 100, age_groups = [(''66-70'', 40)],
         state = ''Maharashtra'', pensioner_states = [(''Other State'', 25)]\<rparr>)] = Inr []"
    by (simp add: rollup_eval)
  have 2: "age_count_of [] ''Other State'' ''66-70'' \<noteq> (40 * 25) div 100"
    by (simp add: age_count_of_def entry_of_def new_residence_entry_def count_of_def)
  have 3: "residence_rollup
     [(''400001'', \<lparr>total_dlc_completed = 9007199254740993,
         age_groups = [(''66-70'', 9007199254740993)],
         state = ''Maharashtra'', pensioner_states = [(''Gujarat'', 9007199254740993)]\<rparr>)]
     = Inr [(''Gujarat'', \<lparr>rs_total_pensioners = 9007199254740993,
              rs_age_groups = [(''66-70'', 9007199254740992)],
              rs_bank_locations = [(''Maharashtra'', 9007199254740993)],
              rs_pincode_counts = []\<rparr>)]"
    by (simp add: rollup_eval double_rounds_up)
  have 4: "(9007199254740993 * 9007199254740993) div 9007199254740993 \<noteq> (9007199254740992 :: int)"
    by simp
  from 1 2 3 4 show ?thesis by blast
qed

section \<open>Drift of the proportional redistribution\<close>

lemma floor_times_le: "0 < T \<Longrightarrow> T * (x div T) \<le> (x::int)"
  using mult_div_mod_eq [of T x] pos_mod_sign [of T x] by linarith

lemma le_floor_times: "0 < T \<Longrightarrow> (x::int) \<le> T * (x div T) + (T - 1)"
  using mult_div_mod_eq [of T x] pos_mod_bound [of T x] by linarith

lemma share_sum_upper:
  fixes T P :: int
  assumes "0 < T"
  shows "T * sum_list (map (\<lambda>(g, A). (A * P) div T) ags) \<le> sum_list (map snd ags) * P"
proof (induction ags)
  case Nil
  show ?case by simp
next
  case (Cons x ags)
  obtain g A where x: "x = (g, A)" by (cases x)
  from floor_times_le [OF assms, of "A * P"] Cons.IH show ?case
    by (simp add: x algebra_simps)
qed

lemma share_sum_lower:
  fixes T P :: int
  assumes "0 < T"
  shows "sum_list (map snd ags) * P
           \<le> T * sum_list (map (\<lambda>(g, A). (A * P) div T) ags) + int (length ags) * (T - 1)"
proof (induction ags)
  case Nil
  show ?case by simp
next
  case (Cons x ags)
  obtain g A where x: "x = (g, A)" by (cases x)
  from le_floor_times [OF assms, of "A * P"] Cons.IH show ?case
    by (simp add: x algebra_simps)
qed

lemma bucket_share_bounds:
  assumes "bucket_ok data"
  shows "bucket_share data P \<le> P"
    and "P - bucket_share data P \<le> int (length (age_groups data)) - 1"
proof -
  define T where "T = total_dlc_completed data"
  define F where "F = bucket_share data P"
  define n where "n = int (length (age_groups data))"
  from assms have T: "0 < T" and S: "sum_list (map snd (age_groups data)) = T"
    by (simp_all add: bucket_ok_def T_def)
  have F: "F = sum_list (map (\<lambda>(g, A). (A * P) div T) (age_groups data))"
    by (simp add: F_def bucket_share_def T_def)
  from share_sum_upper [OF T, of P "age_groups data"] have "T * F \<le> T * P"
    by (simp add: F S mult.commute)
  then show "bucket_share data P \<le> P" using T by (simp add: F_def)
  have "age_groups data \<noteq> []" using S T by auto
  then have n: "1 \<le> n" by (cases "age_groups data") (simp_all add: n_def)
  from share_sum_lower [OF T, of "age_groups data" P] have "T * P \<le> T * F + n * (T - 1)"
    by (simp add: F S n_def mult.commute)
  moreover have "n * (T - 1) = n * T - n" by (simp add: algebra_simps)
  ultimately have "T * P - T * F < n * T" using n by linarith
  then have "T * (P - F) < T * n" by (simp add: algebra_simps)
  then have "P - F < n" using T by simp
  then show "P - bucket_share data P \<le> int (length (age_groups data)) - 1"
    by (simp add: F_def n_def)
qed

lemma states_sum_bounds:
  assumes "bucket_ok data"
  shows "sum_list (map (\<lambda>(s, P). bucket_share data P) cs) \<le> sum_list (map snd cs)
       \<and> sum_list (map snd cs) - sum_list (map (\<lambda>(s, P). bucket_share data P) cs)
           \<le> int (length cs) * (int (length (age_groups data)) - 1)"
proof (induction cs)
  case Nil
  show ?case by simp
next
  case (Cons x cs)
  obtain s P where x: "x = (s, P)" by (cases x)
  from bucket_share_bounds [OF assms, of P] Cons.IH show ?case
    by (simp add: x algebra_simps)
qed

lemma sum_filter_split:
  "sum_list (map f xs) = sum_list (map f (filter Q xs)) + sum_list (map f (filter (\<lambda>x. \<not> Q x) xs))"
  for f :: "'a \<Rightarrow> int"
  by (induction xs) simp_all

lemma nonneg_member_le_sum:
  "list_all (\<lambda>(k, v). 0 \<le> v) l \<Longrightarrow> (k, v) \<in> set l \<Longrightarrow> 0 \<le> v \<and> v \<le> sum_list (map snd l)"
  for v :: int
proof (induction l)
  case Nil
  then show ?case by simp
next
  case (Cons x l)
  obtain k' v' where x: "x = (k', v')" by (cases x)
  from Cons.prems x have v': "0 \<le> v'" and all: "list_all (\<lambda>(k, v). 0 \<le> v) l" by simp_all
  have s: "0 \<le> sum_list (map snd l)"
    using all by (induction l) auto
  show ?case
  proof (cases "(k, v) \<in> set l")
    case True
    from Cons.IH [OF all True] v' show ?thesis by (simp add: x)
  next
    case False
    with Cons.prems x have "v = v'" by simp
    with v' s show ?thesis by (simp add: x)
  qed
qed

lemma nonneg_sum: "list_all (\<lambda>(k, v). 0 \<le> v) l \<Longrightarrow> 0 \<le> sum_list (map snd l)"
  for l :: "(string \<times> int) list"
  by (induction l) auto

lemma small_bucket_exact:
  assumes ok: "bucket_ok data" and nn: "counts_nonneg data"
    and small: "total_dlc_completed data < 2 ^ 26"
  shows "products_exact data"
proof -
  define T where "T = total_dlc_completed data"
  have T0: "0 \<le> T" using ok by (simp add: bucket_ok_def T_def)
  have "0 \<le> A * P \<and> A * P < 2 ^ 53"
    if P: "(s, P) \<in> set (pensioner_states data)" and A: "(g, A) \<in> set (age_groups data)"
    for s P g A
  proof -
    from nn have "list_all (\<lambda>(k, v). 0 \<le> v) (age_groups data)"
      and "list_all (\<lambda>(k, v). 0 \<le> v) (pensioner_states data)"
      by (simp_all add: counts_nonneg_def)
    from nonneg_member_le_sum [OF this(1) A] nonneg_member_le_sum [OF this(2) P] ok
    have a: "0 \<le> A" "A \<le> T" and p: "0 \<le> P" "P \<le> T"
      by (simp_all add: bucket_ok_def T_def)
    have "A * P \<le> T * T" using a p by (intro mult_mono) simp_all
    moreover have "T * T < 2 ^ 26 * 2 ^ 26"
      using small T0 by (intro mult_strict_mono) (simp_all add: T_def)
    ultimately have "A * P < 2 ^ 53" by simp
    moreover have "0 \<le> A * P" using a p by simp
    ultimately show ?thesis by simp
  qed
  then show ?thesis
    unfolding products_exact_def list_all_iff by blast
qed

text \<open>
  Claim C4, amended. For a bucket of a persisted document (total at least 1 and equal to
  the sum of its age-group counts and to the sum of its pensioner-state counts, no count
  negative) with fewer than \<open>2\<^sup>2\<^sup>6\<close> completions, the rollup of the bucket succeeds and
  the sum over all residence states of the redistributed age-group counts is at most the
  bucket's total. The difference between the total and that sum is at least the number of
  completions whose residence state is excluded by the guard, and at most that number plus
  \<open>numStates * (numAgeGroups - 1)\<close>, where \<open>numStates\<close> counts the residence states of
  the bucket that pass the guard and \<open>numAgeGroups\<close> the age groups of the bucket. With one
  residence state and nothing excluded this is the interval \<open>[0, numAgeGroups)\<close>.
\<close>

theorem redistribution_drift:
  assumes "bucket_ok data" and "counts_nonneg data" and "total_dlc_completed data < 2 ^ 26"
  shows "\<exists>out. distribute_pensioners data (pensioner_states data) sw = Inr out
     \<and> redistributed_sum out - redistributed_sum sw \<le> total_dlc_completed data
     \<and> 0 \<le> excluded_count data
     \<and> excluded_count data
          \<le> total_dlc_completed data - (redistributed_sum out - redistributed_sum sw)
     \<and> total_dlc_completed data - (redistributed_sum out - redistributed_sum sw)
          \<le> excluded_count data
             + int (length (counted_states data)) * (int (length (age_groups data)) - 1)"
proof -
  have T: "0 < total_dlc_completed data" using assms(1) by (simp add: bucket_ok_def)
  have "products_exact data" using assms by (rule small_bucket_exact)
  then have "list_all (\<lambda>(st, P). list_all (\<lambda>(g, A). 0 \<le> A * P \<and> A * P < 2 ^ 53)
                (age_groups data)) (pensioner_states data)"
    by (simp add: products_exact_def)
  from distribute_pensioners_exact [OF T this, of sw] obtain out where
    out: "distribute_pensioners data (pensioner_states data) sw = Inr out"
    and rs: "redistributed_sum out = redistributed_sum sw
                + sum_list (map (\<lambda>(s, P). bucket_share data P) (counted_states data))"
    by (auto simp: counted_states_def)
  define added where "added = redistributed_sum out - redistributed_sum sw"
  have added: "added = sum_list (map (\<lambda>(s, P). bucket_share data P) (counted_states data))"
    using rs by (simp add: added_def)
  have split: "total_dlc_completed data
      = sum_list (map snd (counted_states data)) + excluded_count data"
  proof -
    have "total_dlc_completed data = sum_list (map snd (pensioner_states data))"
      using assms(1) by (simp add: bucket_ok_def)
    also have "\<dots> = sum_list (map snd (filter (\<lambda>(st, c). residence_state_ok st) (pensioner_states data)))
        + sum_list (map snd (filter (\<lambda>x. \<not> (case x of (st, c) \<Rightarrow> residence_state_ok st))
            (pensioner_states data)))"
      by (rule sum_filter_split)
    also have "(\<lambda>x. \<not> (case x of (st, c) \<Rightarrow> residence_state_ok st))
                 = (\<lambda>(st, c). \<not> residence_state_ok st)"
      by (simp add: fun_eq_iff split: prod.splits)
    finally show ?thesis by (simp add: counted_states_def excluded_count_def)
  qed
  have ex0: "0 \<le> excluded_count data"
  proof -
    from assms(2) have "list_all (\<lambda>(k, v). 0 \<le> v) (pensioner_states data)"
      by (simp add: counts_nonneg_def)
    then have "list_all (\<lambda>(k, v). 0 \<le> v)
        (filter (\<lambda>(st, c). \<not> residence_state_ok st) (pensioner_states data))"
      by (simp add: list_all_iff)
    then show ?thesis unfolding excluded_count_def by (rule nonneg_sum)
  qed
  from states_sum_bounds [OF assms(1), of "counted_states data"]
  have b1: "added \<le> sum_list (map snd (counted_states data))"
    and b2: "sum_list (map snd (counted_states data)) - added
           \<le> int (length (counted_states data)) * (int (length (age_groups data)) - 1)"
    by (simp_all add: added)
  have "added \<le> total_dlc_completed data"
    and "excluded_count data \<le> total_dlc_completed data - added"
    and "total_dlc_completed data - added
          \<le> excluded_count data
             + int (length (counted_states data)) * (int (length (age_groups data)) - 1)"
    using b1 b2 split ex0 by linarith+
  with ex0 out show ?thesis
    unfolding added_def by (intro exI [of _ out]) simp
qed


lemma six_ages_bucket_produced:
  "analyze_dlc_by_bank_pincode 2024
     [Sheet [\<lparr>BRANCH_PINCODE = Cell ''400001.0'', PENSIONER_PINCODE = Cell ''380001.0'', YOB = YobNum 1970\<rparr>,
             \<lparr>BRANCH_PINCODE = Cell ''400001.0'', PENSIONER_PINCODE = Cell ''302001.0'', YOB = YobNum 1962\<rparr>,
             \<lparr>BRANCH_PINCODE = Cell ''400001.0'', PENSIONER_PINCODE = Cell ''380002.0'', YOB = YobNum 1956\<rparr>,
             \<lparr>BRANCH_PINCODE = Cell ''400001.0'', PENSIONER_PINCODE = Cell ''302002.0'', YOB = YobNum 1951\<rparr>,
             \<lparr>BRANCH_PINCODE = Cell ''400001.0'', PENSIONER_PINCODE = Cell ''380003.0'', YOB = YobNum 1946\<rparr>,
             \<lparr>BRANCH_PINCODE = Cell ''400001.0'', PENSIONER_PINCODE = Cell ''302003.0'', YOB = YobNum 1940\<rparr>]]
     = ([(''400001'', six_ages_bucket)], 6)"
  by (simp add: eval_defs six_ages_bucket_def)

lemma six_ages_rollup_eval:
  "distribute_pensioners six_ages_bucket (pensioner_states six_ages_bucket) [] = Inr six_ages_rollup"
  by (simp add: six_ages_bucket_def six_ages_rollup_def residence_state_ok_def
      add_residents_def entry_of_def new_residence_entry_def Let_def proportional_count_exact)

theorem redistribution_drift_witness:
  "bucket_ok six_ages_bucket \<and> counts_nonneg six_ages_bucket
   \<and> total_dlc_completed six_ages_bucket < 2 ^ 26
   \<and> distribute_pensioners six_ages_bucket (pensioner_states six_ages_bucket) []
        = Inr six_ages_rollup
   \<and> excluded_count six_ages_bucket = 0
   \<and> total_dlc_completed six_ages_bucket - (redistributed_sum six_ages_rollup - redistributed_sum []) = 6
   \<and> total_dlc_completed six_ages_bucket - (redistributed_sum six_ages_rollup - redistributed_sum [])
        \<le> excluded_count six_ages_bucket
           + int (length (counted_states six_ages_bucket))
             * (int (length (age_groups six_ages_bucket)) - 1)"
proof -
  have ok: "bucket_ok six_ages_bucket" by (simp add: bucket_ok_def six_ages_bucket_def)
  have nn: "counts_nonneg six_ages_bucket" by (simp add: counts_nonneg_def six_ages_bucket_def)
  have small: "total_dlc_completed six_ages_bucket < 2 ^ 26" by (simp add: six_ages_bucket_def)
  from redistribution_drift [OF ok nn small, of "[]"] obtain out where
    "distribute_pensioners six_ages_bucket (pensioner_states six_ages_bucket) [] = Inr out"
    "total_dlc_completed six_ages_bucket - (redistributed_sum out - redistributed_sum [])
        \<le> excluded_count six_ages_bucket
           + int (length (counted_states six_ages_bucket))
             * (int (length (age_groups six_ages_bucket)) - 1)"
    by blast
  then have bound: "total_dlc_completed six_ages_bucket
        - (redistributed_sum six_ages_rollup - redistributed_sum [])
        \<le> excluded_count six_ages_bucket
           + int (length (counted_states six_ages_bucket))
             * (int (length (age_groups six_ages_bucket)) - 1)"
    by (simp add: six_ages_rollup_eval)
  have ex: "excluded_count six_ages_bucket = 0"
    by (simp add: excluded_count_def six_ages_bucket_def residence_state_ok_def)
  have d: "total_dlc_completed six_ages_bucket
        - (redistributed_sum six_ages_rollup - redistributed_sum []) = 6"
    by (simp add: six_ages_bucket_def six_ages_rollup_def redistributed_sum_def)
  from ok nn small six_ages_rollup_eval ex d bound show ?thesis by blast
qed

text \<open>
  Claim C4 as stated fails: with two residence states every share of the six-row bucket is
  truncated to 0, and the difference is 6, the number of age groups.
\<close>

theorem redistribution_drift_counterexample:
  "bucket_ok six_ages_bucket
   \<and> residence_rollup [(''400001'', six_ages_bucket)] = Inr six_ages_rollup
   \<and> redistributed_sum six_ages_rollup = 0
   \<and> length (age_groups six_ages_bucket) = 6
   \<and> \<not> (total_dlc_completed six_ages_bucket - redistributed_sum six_ages_rollup
          < int (length (age_groups six_ages_bucket)))"
proof -
  have ok: "bucket_ok six_ages_bucket" by (simp add: bucket_ok_def six_ages_bucket_def)
  have r: "residence_rollup [(''400001'', six_ages_bucket)] = Inr six_ages_rollup"
    by (simp add: residence_rollup_def six_ages_rollup_eval)
  have s: "redistributed_sum six_ages_rollup = 0"
    by (simp add: six_ages_rollup_def redistributed_sum_def)
  have l: "length (age_groups six_ages_bucket) = 6" by (simp add: six_ages_bucket_def)
  have t: "total_dlc_completed six_ages_bucket = 6" by (simp add: six_ages_bucket_def)
  from ok r s l t show ?thesis by simp
qed

section \<open>Inclusion predicates of the views\<close>







lemma process_excel_data_counts_nothing: "process_excel_data cy excel_files = ([], 0)"
proof -
  have "fold (\<lambda>file acc.
             case read_excel_chunksize file of
               Inl _ \<Rightarrow> acc
             | Inr chunks \<Rightarrow> fold (\<lambda>chunk. fold (edp_process_row cy) chunk) chunks acc)
          excel_files acc = acc" for acc
    by (induction excel_files) (simp_all add: read_excel_chunksize_def)
  then show ?thesis by (simp add: process_excel_data_def)
qed




section \<open>Order of the top-N projections\<close>

lemma sorted_reverse_is_descending_stable: "descending_stable f xs (sorted_reverse f xs)"
  unfolding descending_stable_def
  by (simp add: sorted_reverse_descending sorted_reverse_stable) (simp add: sorted_reverse_def)

lemma top_n_completes: "descending_stable f xs (top_n n f xs @ drop n (sorted_reverse f xs))"
  by (simp add: top_n_def sorted_reverse_is_descending_stable)

lemma top_n_length: "length (top_n n f xs) = min n (length xs)"
  by (simp add: top_n_def sorted_reverse_def min.commute)

lemma acc_items_step:
  "acc_items (dd_update new_bank_state_acc st (add_bank_pincode pin data) acc) S
     = acc_items acc S @
       (if S = st then [\<lparr>pincode = pin, dlc_count = total_dlc_completed data,
                         district = get_district_from_pincode pin\<rparr>] else [])"
  by (simp add: acc_items_def map_of_dd_update add_bank_pincode_def new_bank_state_acc_def
      split: option.splits)

lemma acc_items_fold:
  "acc_items (fold (\<lambda>(pin, data). dd_update new_bank_state_acc (state data)
                       (add_bank_pincode pin data)) bd acc) S
     = acc_items acc S @ pincode_items bd S"
  by (induction bd arbitrary: acc) (auto simp: pincode_items_def acc_items_step)

lemma listed_pincodes_eq:
  "listed_pincodes (state_final bd) S = top_n 20 dlc_count (pincode_items bd S)"
proof -
  have "listed_pincodes (state_final bd) S
          = top_n 20 dlc_count (acc_items (state_wise_data bd) S)"
    by (simp add: listed_pincodes_def state_final_def acc_items_def map_of_map top_n_def
        sorted_reverse_def split: option.splits)
  also have "acc_items (state_wise_data bd) S = pincode_items bd S"
    unfolding state_wise_data_def acc_items_fold by (simp add: acc_items_def)
  finally show ?thesis .
qed

lemma da_items_step:
  "da_items (dd_update new_district_acc K' (add_district_pincode pin data) acc) K
     = da_items acc K @
       (if K = K' then [\<lparr>di_pincode = pin, di_dlc_count = total_dlc_completed data\<rparr>] else [])"
  by (simp add: da_items_def map_of_dd_update add_district_pincode_def new_district_acc_def
      split: option.splits)

lemma da_items_fold:
  "da_items (fold (\<lambda>(pin, data). dd_update new_district_acc (district_key pin data)
                       (add_district_pincode pin data)) bd acc) K
     = da_items acc K @ district_items bd K"
  by (induction bd arbitrary: acc) (auto simp: district_items_def da_items_step)

lemma listed_district_pincodes_eq:
  "listed_district_pincodes (district_final bd) K = top_n 10 di_dlc_count (district_items bd K)"
proof -
  have "listed_district_pincodes (district_final bd) K
          = top_n 10 di_dlc_count (da_items (district_wise_data bd) K)"
    by (simp add: listed_district_pincodes_def district_final_def da_items_def map_of_map
        top_n_def sorted_reverse_def split: option.splits)
  also have "da_items (district_wise_data bd) K = district_items bd K"
    unfolding district_wise_data_def da_items_fold by (simp add: da_items_def)
  finally show ?thesis .
qed

lemma process_row_keeps_order:
  "prefix (map fst d) (map fst (fst (process_row cy row (d, n))))"
  by (cases "YOB row") (simp_all add: process_row_def Let_def dd_update_keys)

text \<open>
  Claim C6. Each top-N projection of the code - the top 15 bank pincodes and the top 10
  states of the analysis report, the top 20 bank pincodes of a state and the top 10 of a
  district in the rollup, the top 50 of the saved file, and any
  \<open>sorted(..., reverse=True)[:n]\<close> - is the first \<open>min n (length xs)\<close> entries of
  its input rearranged in descending order of count, buckets of equal count staying in
  their order of first encounter. The bank-pincode dictionary keeps its keys in the order
  they were first seen: a row leaves the keys as they are or appends one. For counts 50,
  50, 30 of keys A, B, C seen in this order the top 2 is A, B, and the top pincodes list
  A before B.
\<close>

theorem top_projections_order:
  "(\<exists>rest. descending_stable (\<lambda>x. total_dlc_completed (snd x)) bank_data
              (top_pincodes bank_data @ rest))
   \<and> length (top_pincodes bank_data) = min 15 (length bank_data)
   \<and> (\<exists>rest. descending_stable snd (state_totals bank_data) (state_sorted bank_data @ rest))
   \<and> length (state_sorted bank_data) = min 10 (length (state_totals bank_data))
   \<and> (\<exists>rest. descending_stable dlc_count (pincode_items bank_data S)
                (listed_pincodes (state_final bank_data) S @ rest))
   \<and> length (listed_pincodes (state_final bank_data) S)
        = min 20 (length (pincode_items bank_data S))
   \<and> (\<exists>rest. descending_stable di_dlc_count (district_items bank_data K)
                (listed_district_pincodes (district_final bank_data) K @ rest))
   \<and> length (listed_district_pincodes (district_final bank_data) K)
        = min 10 (length (district_items bank_data K))
   \<and> (\<exists>rest. descending_stable (\<lambda>x. total_dlc_completed (snd x)) bank_data
                (top_50_bank_pincodes bank_data @ rest))
   \<and> length (top_50_bank_pincodes bank_data) = min 50 (length bank_data)
   \<and> (\<exists>rest. descending_stable f xs (top_n n f xs @ rest))
   \<and> length (top_n n f xs) = min n (length xs)
   \<and> prefix (map fst d) (map fst (fst (process_row cy row (d, m))))
   \<and> map fst (top_n 2 snd [(''A'', 50), (''B'', 50), (''C'', 30)]) = [''A'', ''B'']
   \<and> map fst (top_pincodes
        [(''A'', \<lparr>total_dlc_completed = 50, age_groups = [], state = [], pensioner_states = []\<rparr>),
         (''B'', \<lparr>total_dlc_completed = 50, age_groups = [], state = [], pensioner_states = []\<rparr>),
         (''C'', \<lparr>total_dlc_completed = 30, age_groups = [], state = [], pensioner_states = []\<rparr>)])
       = [''A'', ''B'', ''C'']"
proof -
  have 1: "\<exists>rest. descending_stable (\<lambda>x. total_dlc_completed (snd x)) bank_data
              (top_pincodes bank_data @ rest)"
    unfolding top_pincodes_def using top_n_completes by blast
  have 2: "length (top_pincodes bank_data) = min 15 (length bank_data)"
    by (simp add: top_pincodes_def top_n_length)
  have 3: "\<exists>rest. descending_stable snd (state_totals bank_data) (state_sorted bank_data @ rest)"
    unfolding state_sorted_def using top_n_completes by blast
  have 4: "length (state_sorted bank_data) = min 10 (length (state_totals bank_data))"
    by (simp add: state_sorted_def top_n_length)
  have 5: "\<exists>rest. descending_stable dlc_count (pincode_items bank_data S)
                (listed_pincodes (state_final bank_data) S @ rest)"
    unfolding listed_pincodes_eq using top_n_completes by blast
  have 6: "length (listed_pincodes (state_final bank_data) S)
        = min 20 (length (pincode_items bank_data S))"
    by (simp add: listed_pincodes_eq top_n_length)
  have 12: "\<exists>rest. descending_stable di_dlc_count (district_items bank_data K)
                (listed_district_pincodes (district_final bank_data) K @ rest)"
    unfolding listed_district_pincodes_eq using top_n_completes by blast
  have 13: "length (listed_district_pincodes (district_final bank_data) K)
        = min 10 (length (district_items bank_data K))"
    by (simp add: listed_district_pincodes_eq top_n_length)
  have 14: "\<exists>rest. descending_stable (\<lambda>x. total_dlc_completed (snd x)) bank_data
                (top_50_bank_pincodes bank_data @ rest)"
    unfolding top_50_bank_pincodes_def using top_n_completes by blast
  have 15: "length (top_50_bank_pincodes bank_data) = min 50 (length bank_data)"
    by (simp add: top_50_bank_pincodes_def top_n_length)
  have 7: "\<exists>rest. descending_stable f xs (top_n n f xs @ rest)"
    using top_n_completes by blast
  have 8: "length (top_n n f xs) = min n (length xs)" by (rule top_n_length)
  have 9: "prefix (map fst d) (map fst (fst (process_row cy row (d, m))))"
    by (rule process_row_keeps_order)
  have 10: "map fst (top_n 2 snd [(''A'', 50), (''B'', 50), (''C'', 30::int)]) = [''A'', ''B'']"
    by (simp add: top_n_def sorted_reverse_def)
  have 11: "map fst (top_pincodes
        [(''A'', \<lparr>total_dlc_completed = 50, age_groups = [], state = [], pensioner_states = []\<rparr>),
         (''B'', \<lparr>total_dlc_completed = 50, age_groups = [], state = [], pensioner_states = []\<rparr>),
         (''C'', \<lparr>total_dlc_completed = 30, age_groups = [], state = [], pensioner_states = []\<rparr>)])
       = [''A'', ''B'', ''C'']"
    by (simp add: top_pincodes_def top_n_def sorted_reverse_def)
  from 1 2 3 4 5 6 7 8 9 10 11 12 13 14 15 show ?thesis by blast
qed

end
